theory Spec2Isabelle
  imports Complex_Main "HOL-Library.Word"
begin

section \<open>Peer-to-peer file transfer page: the embedded program\<close>

text \<open>
  The development embeds the page component of the repository, as written in
  \<^verbatim>\<open>src/unnamed/part_000\<close>: token validation, session join and reset, the relay
  (socket) event handlers, the signalling handler with its ICE candidate queue, the
  data-channel receiver (\<^verbatim>\<open>onmessage\<close>, \<^verbatim>\<open>storeChunk\<close>) and the sender
  (\<^verbatim>\<open>sendFiles\<close>, \<^verbatim>\<open>sendFile\<close>). The second file, \<^verbatim>\<open>src/src/app/page.js\<close>, is an
  earlier copy of the same component: it has the same \<^verbatim>\<open>isValidToken\<close>,
  \<^verbatim>\<open>storeChunk\<close>, disconnect handler and sender loop, but no candidate queue, no
  waiting timeout and fewer error branches.

  Conventions of the embedding.
  \<^item> The component's state variables (\<^verbatim>\<open>useState\<close>) and mutable references
    (\<^verbatim>\<open>useRef\<close>) are the fields of one record \<open>state\<close>; a setter call is a field
    update, applied in program order, so the last update of a field wins.
  \<^item> A function of the component reads state variables through its closure: it sees
    the values of the render in which the closure was created, not later updates.
    Those captured values are the record \<open>render\<close>, passed as the first argument of
    every function that reads a state variable. References (\<^verbatim>\<open>xRef.current\<close>) are
    always read from the current \<open>state\<close>.
  \<^item> What the browser and the relay decide (whether a description is accepted, how
    fast the channel drains) is a parameter: the records \<open>rtc_platform\<close> and
    \<open>channel_platform\<close>.
  \<^item> The \<^verbatim>\<open>signal\<close> listener is an asynchronous function whose awaits matter: it
    is embedded with its suspensions, so that other \<^verbatim>\<open>signal\<close> listeners run while
    one waits. Both copies of it are embedded: the one of \<^verbatim>\<open>src/unnamed/part_000\<close>
    and the one of \<^verbatim>\<open>src/src/app/page.js\<close>.
  \<^item> Every other asynchronous function is run to its end, its awaits in program
    order; a promise that never settles is the result \<open>Pending\<close>, a rejection is
    \<open>Thrown\<close>.
  \<^item> Strings are lists of 8-bit characters, one per code unit.
\<close>

subsection \<open>Data\<close>

type_synonym byte = "8 word"
type_synonym token = string

text \<open>The data of a signal message (a session description or a candidate) is opaque.\<close>

type_synonym payload = string

definition CHUNK_SIZE :: nat where
  "CHUNK_SIZE = 64 * 1024"

text \<open>The status strings \<^verbatim>\<open>idle | waiting | connected | transferring | completed | error\<close>.\<close>

datatype status = Idle | Waiting | Connected | Transferring | Completed | Error

text \<open>A JavaScript value, as far as \<^verbatim>\<open>typeof\<close> tells values apart.\<close>

datatype js_value =
    JSUndefined
  | JSNull
  | JSBoolean bool
  | JSNumber int
  | JSString string
  | JSObject

text \<open>A \<^verbatim>\<open>File\<close>: name, MIME type and content; \<^verbatim>\<open>file.size\<close> is the content's length.\<close>

record js_file =
  f_name :: string
  f_type :: string
  f_bytes :: "byte list"

definition f_size :: "js_file \<Rightarrow> nat" where
  "f_size f = length (f_bytes f)"

text \<open>
  The object a text frame parses to, restricted to the properties the receiver reads.
  A property that is absent (or \<^verbatim>\<open>null\<close>) is \<open>None\<close>; a JSON value that is not an
  object has no property at all. Sizes are integers.
\<close>

record file_meta =
  m_type :: "string option"
  m_name :: "string option"
  m_size :: "int option"
  m_mime :: "string option"
  m_chunkSize :: "int option"

text \<open>
  A data-channel message. A text frame carries the object its text parses to, or
  \<open>None\<close> when \<^verbatim>\<open>JSON.parse\<close> rejects the text. A binary frame is an \<^verbatim>\<open>ArrayBuffer\<close>.
\<close>

datatype frame = TextFrame "file_meta option" | BinaryFrame "byte list"

datatype ready_state = RSConnecting | RSOpen | RSClosing | RSClosed

text \<open>
  An \<^verbatim>\<open>RTCDataChannel\<close>. \<open>dc_sent\<close> lists the frames handed to \<^verbatim>\<open>send\<close>, each with
  the value of \<^verbatim>\<open>bufferedAmount\<close> right after the call.
\<close>

record data_channel =
  readyState :: ready_state
  bufferedAmount :: nat
  bufferedAmountLowThreshold :: nat
  dc_sent :: "(frame \<times> nat) list"

datatype pc_call =
    SetRemoteDescription payload
  | AddIceCandidate payload
  | CreateOffer
  | CreateAnswer
  | SetLocalDescription payload

text \<open>An \<^verbatim>\<open>RTCPeerConnection\<close>, with the list of the method calls made on it.\<close>

record peer_conn =
  remoteDescription :: "payload option"
  localDescription :: "payload option"
  pc_log :: "pc_call list"

text \<open>Messages the page emits on the relay socket.\<close>

datatype socket_msg =
    Register token
  | SessionCancel token
  | SessionComplete "token option"
  | SignalMsg "token option" string payload

text \<open>
  The listeners the page attaches to the socket. The disconnect listener reads the
  state variable \<^verbatim>\<open>status\<close>; it carries the value its closure captured.
\<close>

datatype listener =
    OnReconnect
  | OnReconnectError
  | OnceConnectError
  | OnConnectError
  | OnDisconnect status
  | OnRegistered
  | OnReady
  | OnSignal
  | OnErrorMessage
  | OnSessionDestroyed

text \<open>
  The socket.io client socket: \<open>open_calls\<close> counts the connection attempts the page
  started (creation with \<^verbatim>\<open>autoConnect\<close>, or \<^verbatim>\<open>connect()\<close>).
\<close>

record socket =
  connected :: bool
  open_calls :: nat
  listeners :: "(string \<times> listener) list"
  emitted :: "socket_msg list"

text \<open>A file handed to the user: download name, blob type, blob content.\<close>

datatype download = Download string string "byte list"

datatype rtc_release = DcClose | PcClose

text \<open>
  A JavaScript number that is a progress percentage: \<open>None\<close> is a non-finite value
  (division by zero).
\<close>

type_synonym progress = "rat option"

record state =
  status :: status
  error :: string
  role :: "string option"
  expiresAt :: "string option"
  lastAction :: string
  selectedFiles :: "js_file list"
  currentFileIndex :: nat
  sendProgress :: progress
  recvProgress :: progress
  sessionToken :: string
  pcRef :: "peer_conn option"
  dcRef :: "data_channel option"
  sessionTokenRef :: "token option"
  recvChunksRef :: "byte list list"
  recvMetaRef :: "file_meta option"
  recvBytesRef :: nat
  socketRef :: "socket option"
  roleRef :: "string option"
  iceCandidateQueueRef :: "payload list"
  downloads :: "download list"
  released :: "rtc_release list"

text \<open>The state variables a closure captured.\<close>

record render =
  r_status :: status
  r_sessionToken :: string
  r_selectedFiles :: "js_file list"
  r_currentFileIndex :: nat

definition render_of :: "state \<Rightarrow> render" where
  "render_of st =
     \<lparr>r_status = status st, r_sessionToken = sessionToken st,
      r_selectedFiles = selectedFiles st, r_currentFileIndex = currentFileIndex st\<rparr>"

definition initial_state :: state where
  "initial_state =
     \<lparr>status = Idle, error = [], role = None, expiresAt = None, lastAction = ''idle'',
      selectedFiles = [], currentFileIndex = 0, sendProgress = Some 0,
      recvProgress = Some 0, sessionToken = [], pcRef = None, dcRef = None,
      sessionTokenRef = None, recvChunksRef = [], recvMetaRef = None, recvBytesRef = 0,
      socketRef = None, roleRef = None, iceCandidateQueueRef = [], downloads = [],
      released = []\<rparr>"

text \<open>
  What the browser decides for the calls of \<^verbatim>\<open>startWebRTC\<close>: the description
  \<^verbatim>\<open>createOffer\<close> produces, and a rejection (with its message) or success of
  \<^verbatim>\<open>setLocalDescription\<close>.
\<close>

record rtc_platform =
  setLocalDescription_err :: "peer_conn \<Rightarrow> payload \<Rightarrow> string option"
  createOffer_res :: "peer_conn \<Rightarrow> string + payload"

text \<open>
  What the transport does while the sender prepares one binary frame: \<open>drained\<close>
  bytes leave the buffer while the slice is read; if the sender then waits for
  \<^verbatim>\<open>bufferedamountlow\<close>, \<open>low_event = Some b\<close> says the event fires and the sender
  resumes with \<open>b\<close> bytes buffered (at most the threshold), and \<open>None\<close> says it never
  fires.
\<close>

record chan_step =
  drained :: nat
  low_event :: "nat option"

text \<open>
  The channel's environment: \<open>net k\<close> is the transport's behaviour before the frame
  that follows \<open>k\<close> sent frames; \<open>text_bytes m\<close> is the UTF-8 length of
  \<^verbatim>\<open>JSON.stringify(m)\<close>.
\<close>

record channel_platform =
  net :: "nat \<Rightarrow> chan_step"
  text_bytes :: "file_meta \<Rightarrow> nat"

text \<open>The result of an asynchronous function.\<close>

datatype 'a outcome = Returned 'a | Thrown string 'a | Pending 'a

subsection \<open>Token validation\<close>

text \<open>The character class \<^verbatim>\<open>[A-Fa-f0-9]\<close>, by code unit.\<close>

definition hex_class :: "char \<Rightarrow> bool" where
  "hex_class c =
     (let n = (of_char c :: nat) in
        (65 \<le> n \<and> n \<le> 70) \<or> (97 \<le> n \<and> n \<le> 102) \<or> (48 \<le> n \<and> n \<le> 57))"

text \<open>\<^verbatim>\<open>/^[A-Fa-f0-9]+$/.test(s)\<close>: the whole string, one or more characters of the class.\<close>

fun regex_hex_plus :: "string \<Rightarrow> bool" where
  "regex_hex_plus [] = False"
| "regex_hex_plus [c] = hex_class c"
| "regex_hex_plus (c # cs) = (hex_class c \<and> regex_hex_plus cs)"

fun isValidToken :: "js_value \<Rightarrow> bool" where
  "isValidToken (JSString t) = (if length t \<noteq> 16 then False else regex_hex_plus t)"
| "isValidToken _ = False"

text \<open>
  \<^verbatim>\<open>String.prototype.trim\<close>: white space and line terminators among the 8-bit code
  units (TAB, LF, VT, FF, CR, SPACE, NBSP) are stripped at both ends.
\<close>

definition js_whitespace :: "char \<Rightarrow> bool" where
  "js_whitespace c = ((of_char c :: nat) \<in> {9, 10, 11, 12, 13, 32, 160})"

definition js_trim :: "string \<Rightarrow> string" where
  "js_trim s = rev (dropWhile js_whitespace (rev (dropWhile js_whitespace s)))"

subsection \<open>The relay socket\<close>

definition socket_emit :: "socket_msg \<Rightarrow> socket \<Rightarrow> socket" where
  "socket_emit m s = s\<lparr>emitted := emitted s @ [m]\<rparr>"

definition socket_on :: "string \<Rightarrow> listener \<Rightarrow> socket \<Rightarrow> socket" where
  "socket_on ev l s = s\<lparr>listeners := listeners s @ [(ev, l)]\<rparr>"

text \<open>\<^verbatim>\<open>s.removeAllListeners(ev)\<close> and, without an argument, \<^verbatim>\<open>s.removeAllListeners()\<close>.\<close>

definition removeAllListeners :: "string \<Rightarrow> socket \<Rightarrow> socket" where
  "removeAllListeners ev s = s\<lparr>listeners := filter (\<lambda>p. fst p \<noteq> ev) (listeners s)\<rparr>"

definition removeEveryListener :: "socket \<Rightarrow> socket" where
  "removeEveryListener s = s\<lparr>listeners := []\<rparr>"

text \<open>\<^verbatim>\<open>socketRef.current?.f(...)\<close>: nothing happens when there is no socket.\<close>

definition on_socket :: "(socket \<Rightarrow> socket) \<Rightarrow> state \<Rightarrow> state" where
  "on_socket f st =
     (case socketRef st of None \<Rightarrow> st | Some s \<Rightarrow> st\<lparr>socketRef := Some (f s)\<rparr>)"

text \<open>
  \<^verbatim>\<open>ensureSocket\<close>: a connected socket is returned as it is; without a socket one
  is created by \<^verbatim>\<open>io(...)\<close>, which starts connecting and gets the two reconnect
  listeners; a socket that is not connected is told to connect. The socket returned is
  \<open>socketRef\<close> of the resulting state.
\<close>

definition new_socket :: socket where
  "new_socket =
     \<lparr>connected = False, open_calls = 1,
      listeners = [(''reconnect'', OnReconnect), (''reconnect_error'', OnReconnectError)],
      emitted = []\<rparr>"

definition ensureSocket :: "state \<Rightarrow> state" where
  "ensureSocket st =
     (case socketRef st of
        None \<Rightarrow> st\<lparr>socketRef := Some new_socket\<rparr>
      | Some s \<Rightarrow>
          (if connected s then st
           else st\<lparr>socketRef := Some (s\<lparr>open_calls := open_calls s + 1\<rparr>)\<rparr>))"

subsection \<open>Teardown and reset\<close>

text \<open>
  \<^verbatim>\<open>cleanupRTC\<close>: the channel and the connection lose their handlers and are closed,
  both references are cleared, and the candidate queue is emptied.
\<close>

definition cleanupRTC :: "state \<Rightarrow> state" where
  "cleanupRTC st =
     (let st1 = (case dcRef st of
                   None \<Rightarrow> st
                 | Some dc \<Rightarrow> st\<lparr>released := released st @ [DcClose]\<rparr>);
          st2 = st1\<lparr>dcRef := None\<rparr>;
          st3 = (case pcRef st2 of
                   None \<Rightarrow> st2
                 | Some pc \<Rightarrow> st2\<lparr>released := released st2 @ [PcClose]\<rparr>);
          st4 = st3\<lparr>pcRef := None\<rparr>
      in st4\<lparr>iceCandidateQueueRef := []\<rparr>)"

text \<open>
  \<^verbatim>\<open>resetState\<close> (a \<^verbatim>\<open>useCallback\<close> over \<^verbatim>\<open>sessionToken\<close>): the state variables
  and the receive references are reset; if a socket exists, \<^verbatim>\<open>session-cancel\<close> is
  emitted with the captured token and every listener is removed; then \<^verbatim>\<open>cleanupRTC\<close>.
\<close>

definition resetState :: "render \<Rightarrow> state \<Rightarrow> state" where
  "resetState r st =
     (let st1 = st\<lparr>status := Idle, error := [], role := None, roleRef := None,
                   sendProgress := Some 0, recvProgress := Some 0, expiresAt := None,
                   lastAction := ''idle'', selectedFiles := [], currentFileIndex := 0,
                   recvChunksRef := [], recvMetaRef := None, recvBytesRef := 0\<rparr>;
          st2 = on_socket
                  (\<lambda>s. removeEveryListener (socket_emit (SessionCancel (r_sessionToken r)) s))
                  st1
      in cleanupRTC st2)"

subsection \<open>Relay event handlers\<close>

definition on_connect_error :: "state \<Rightarrow> state" where
  "on_connect_error st =
     st\<lparr>error := ''Failed to connect to signaling server.'', status := Error\<rparr>"

text \<open>
  The \<^verbatim>\<open>disconnect\<close> listener. \<open>captured\<close> is the value of \<^verbatim>\<open>status\<close> in the render
  whose \<^verbatim>\<open>wireSocketEvents\<close> attached the listener.
\<close>

definition on_disconnect :: "status \<Rightarrow> string \<Rightarrow> state \<Rightarrow> state" where
  "on_disconnect captured reason st =
     (if reason \<noteq> ''io client disconnect''
      then (let st1 = st\<lparr>error := ''Disconnected from signaling server.''\<rparr>
            in if captured \<noteq> Completed then st1\<lparr>status := Error\<rparr> else st1)
      else st)"

definition on_registered :: "string \<Rightarrow> string option \<Rightarrow> state \<Rightarrow> state" where
  "on_registered r expires st =
     (let st1 = st\<lparr>role := Some r, roleRef := Some r\<rparr>
      in case expires of
           None \<Rightarrow> st1
         | Some e \<Rightarrow> (if e = [] then st1 else st1\<lparr>expiresAt := Some e\<rparr>))"

definition on_error_message :: "string option \<Rightarrow> state \<Rightarrow> state" where
  "on_error_message message st =
     st\<lparr>error := (case message of
                     None \<Rightarrow> ''Signaling error''
                   | Some m \<Rightarrow> (if m = [] then ''Signaling error'' else m)),
         status := Error\<rparr>"

definition on_session_destroyed :: "state \<Rightarrow> state" where
  "on_session_destroyed st = cleanupRTC (st\<lparr>status := Completed\<rparr>)"

text \<open>
  \<^verbatim>\<open>wireSocketEvents(s)\<close>, called from render \<open>r\<close>: the seven events lose their
  listeners and get new ones. The socket is the one in \<open>socketRef\<close>.
\<close>

definition wired_events :: "string list" where
  "wired_events =
     [''registered'', ''ready'', ''signal'', ''error-message'', ''session-destroyed'',
      ''connect_error'', ''disconnect'']"

definition wireSocketEvents :: "render \<Rightarrow> socket \<Rightarrow> socket" where
  "wireSocketEvents r s =
     (let s1 = foldl (\<lambda>s' ev. removeAllListeners ev s') s wired_events;
          s2 = socket_on ''connect_error'' OnConnectError s1;
          s3 = socket_on ''disconnect'' (OnDisconnect (r_status r)) s2;
          s4 = socket_on ''registered'' OnRegistered s3;
          s5 = socket_on ''ready'' OnReady s4;
          s6 = socket_on ''signal'' OnSignal s5;
          s7 = socket_on ''error-message'' OnErrorMessage s6
      in socket_on ''session-destroyed'' OnSessionDestroyed s7)"

text \<open>
  The relay connection drops with \<open>reason\<close>: the socket is no longer connected and
  every listener of \<^verbatim>\<open>disconnect\<close> runs, in the order of attachment.
\<close>

definition run_disconnect_listener :: "string \<Rightarrow> state \<Rightarrow> string \<times> listener \<Rightarrow> state" where
  "run_disconnect_listener reason st p =
     (case snd p of
        OnDisconnect captured \<Rightarrow>
          (if fst p = ''disconnect'' then on_disconnect captured reason st else st)
      | _ \<Rightarrow> st)"

definition socket_disconnected :: "string \<Rightarrow> state \<Rightarrow> state" where
  "socket_disconnected reason st =
     (case socketRef st of
        None \<Rightarrow> st
      | Some s \<Rightarrow>
          foldl (run_disconnect_listener reason)
            (st\<lparr>socketRef := Some (s\<lparr>connected := False\<rparr>)\<rparr>) (listeners s))"

subsection \<open>Joining a session\<close>

text \<open>
  \<^verbatim>\<open>joinSession\<close>, called from render \<open>r\<close>. \<open>input\<close> is the value of the token input
  (\<open>None\<close> when the input element or its value is missing); it is trimmed, and an empty
  or invalid token ends the function after \<^verbatim>\<open>resetState\<close>.
\<close>

definition joinSession :: "render \<Rightarrow> string option \<Rightarrow> state \<Rightarrow> state" where
  "joinSession r input st =
     (let st1 = resetState r st;
          st2 = st1\<lparr>lastAction := ''join''\<rparr>
      in case map_option js_trim input of
           None \<Rightarrow> st2\<lparr>error := ''Invalid token.'', status := Error\<rparr>
         | Some t \<Rightarrow>
             (if t = [] \<or> \<not> isValidToken (JSString t)
              then st2\<lparr>error := ''Invalid token.'', status := Error\<rparr>
              else
                (let st3 = st2\<lparr>sessionToken := t, sessionTokenRef := Some t,
                               status := Waiting\<rparr>;
                     st4 = ensureSocket st3;
                     st5 = on_socket (socket_on ''connect_error'' OnceConnectError) st4;
                     st6 = on_socket (wireSocketEvents r) st5
                 in on_socket (socket_emit (Register t)) st6)))"

subsection \<open>The waiting timeout\<close>

text \<open>
  The effect over \<^verbatim>\<open>[status, resetState]\<close> arms a five-minute timer in a render whose
  \<^verbatim>\<open>status\<close> is \<^verbatim>\<open>waiting\<close>, and clears it when the effect is cleaned up.
  \<open>waiting_timeout r\<close> is the timer's callback, created in render \<open>r\<close>.
\<close>

definition waiting_timer_armed :: "render \<Rightarrow> bool" where
  "waiting_timer_armed r = (r_status r = Waiting)"

definition waiting_timeout :: "render \<Rightarrow> state \<Rightarrow> state" where
  "waiting_timeout r st =
     (if r_status r = Waiting
      then (let st1 = st\<lparr>error := ''Connection timeout: peer did not connect in time.''\<rparr>;
                st2 = st1\<lparr>status := Error\<rparr>
            in resetState r st2)
      else st)"

subsection \<open>Negotiation\<close>

definition pc_called :: "pc_call \<Rightarrow> peer_conn \<Rightarrow> peer_conn" where
  "pc_called c pc = pc\<lparr>pc_log := pc_log pc @ [c]\<rparr>"

definition new_peer_conn :: peer_conn where
  "new_peer_conn = \<lparr>remoteDescription = None, localDescription = None, pc_log = []\<rparr>"

definition new_data_channel :: data_channel where
  "new_data_channel =
     \<lparr>readyState = RSConnecting, bufferedAmount = 0, bufferedAmountLowThreshold = 0,
      dc_sent = []\<rparr>"

text \<open>
  \<^verbatim>\<open>bindDataChannel(dc)\<close>: the channel becomes \<open>dcRef\<close> and its low-water threshold is
  set to four chunks. The handlers it installs are \<open>dc_onmessage\<close> below and three
  that only set \<^verbatim>\<open>status\<close> and \<^verbatim>\<open>error\<close> (not embedded).
\<close>

definition bindDataChannel :: "data_channel \<Rightarrow> state \<Rightarrow> state" where
  "bindDataChannel dc st =
     st\<lparr>dcRef := Some (dc\<lparr>bufferedAmountLowThreshold := CHUNK_SIZE * 4\<rparr>)\<rparr>"

definition startWebRTC :: "rtc_platform \<Rightarrow> state \<Rightarrow> state" where
  "startWebRTC rtc st =
     (case sessionTokenRef st of
        None \<Rightarrow> st\<lparr>error := ''Invalid session token. Please try again.'', status := Error\<rparr>
      | Some t \<Rightarrow>
          (if t = [] \<or> \<not> isValidToken (JSString t)
           then st\<lparr>error := ''Invalid session token. Please try again.'', status := Error\<rparr>
           else
             (let st1 = st\<lparr>pcRef := Some new_peer_conn\<rparr>
              in if roleRef st1 = Some ''host''
                 then
                   (let st2 = bindDataChannel new_data_channel st1;
                        pc1 = pc_called CreateOffer new_peer_conn
                    in case createOffer_res rtc new_peer_conn of
                         Inl msg \<Rightarrow>
                           st2\<lparr>pcRef := Some pc1, error := ''WebRTC init failed: '' @ msg,
                               status := Error\<rparr>
                       | Inr offer \<Rightarrow>
                           (let pc2 = pc_called (SetLocalDescription offer) pc1
                            in case setLocalDescription_err rtc pc1 offer of
                                 Some msg \<Rightarrow>
                                   st2\<lparr>pcRef := Some pc2,
                                       error := ''WebRTC init failed: '' @ msg,
                                       status := Error\<rparr>
                               | None \<Rightarrow>
                                   on_socket (socket_emit (SignalMsg (Some t) ''offer'' offer))
                                     (st2\<lparr>pcRef :=
                                            Some (pc2\<lparr>localDescription := Some offer\<rparr>)\<rparr>)))
                 else st1)))"

definition on_ready :: "rtc_platform \<Rightarrow> state \<Rightarrow> state" where
  "on_ready rtc st =
     (case sessionTokenRef st of
        None \<Rightarrow>
          st\<lparr>error := ''Session token not ready. Please try again.'', status := Error\<rparr>
      | Some t \<Rightarrow>
          (if t \<noteq> [] \<and> isValidToken (JSString t) then startWebRTC rtc st
           else st\<lparr>error := ''Session token not ready. Please try again.'',
                   status := Error\<rparr>))"

subsection \<open>The signal listener\<close>

text \<open>
  The listener of \<^verbatim>\<open>signal\<close> is an async function. A call runs to its first
  \<^verbatim>\<open>await\<close>; when the awaited promise settles it runs on to the next \<^verbatim>\<open>await\<close>
  or to its end, and in between other calls of the listener start and resume. A
  suspended call is a \<open>suspended_call\<close>: the \<^verbatim>\<open>await\<close> it stands at with the local
  values the rest of the call reads.

  The loop \<^verbatim>\<open>for (const candidate of iceCandidateQueueRef.current)\<close> iterates over
  the array that is the queue when the loop starts, by index and against the array's
  current length. As long as that array is still the queue the iterator is \<open>Live i\<close>
  (\<open>i\<close> the next index); once a call has assigned a new array to
  \<^verbatim>\<open>iceCandidateQueueRef.current\<close> the old array cannot change any more and the
  iterator is \<open>Detached\<close> with the elements it still has to visit.
\<close>

datatype queue_iter = Live nat | Detached "payload list"

datatype suspended_call =
    AtSetRemote string payload
  | AtFlush string queue_iter
  | AtCreateAnswer
  | AtSetLocal payload
  | AtAddIce

text \<open>How a promise settles: fulfilled with a value (ignored where none is used), or rejected.\<close>

datatype settled = Fulfilled payload | Rejected string

text \<open>
  The page with the suspended calls of the signal listener. Signal events never
  assign \<open>pcRef\<close>, so the connection a call captured in \<^verbatim>\<open>const pc\<close> is the one in
  \<open>pcRef\<close> for as long as only signal events happen.
\<close>

record signalling =
  page :: state
  suspended :: "suspended_call list"

text \<open>A signal message arrives, or the promise of the suspended call number \<open>i\<close> settles.\<close>

datatype sig_event = Arrives string payload | Settles nat settled

definition suspend :: "suspended_call \<Rightarrow> signalling \<Rightarrow> signalling" where
  "suspend t sys = sys\<lparr>suspended := suspended sys @ [t]\<rparr>"

text \<open>A method call on the peer connection is recorded when it is made.\<close>

definition on_pc :: "(peer_conn \<Rightarrow> peer_conn) \<Rightarrow> signalling \<Rightarrow> signalling" where
  "on_pc g sys =
     (case pcRef (page sys) of
        None \<Rightarrow> sys
      | Some pc \<Rightarrow> sys\<lparr>page := (page sys)\<lparr>pcRef := Some (g pc)\<rparr>\<rparr>)"

definition call_pc :: "pc_call \<Rightarrow> signalling \<Rightarrow> signalling" where
  "call_pc c sys = on_pc (pc_called c) sys"

text \<open>The \<^verbatim>\<open>catch\<close> of the listener in \<^verbatim>\<open>src/unnamed/part_000\<close>.\<close>

definition signal_failed :: "string \<Rightarrow> signalling \<Rightarrow> signalling" where
  "signal_failed msg sys =
     sys\<lparr>page := (page sys)\<lparr>error := ''Signaling error: '' @ msg, status := Error\<rparr>\<rparr>"

text \<open>
  \<^verbatim>\<open>s.emit("signal", {token: sessionTokenRef.current, type: "answer", data: pc.localDescription})\<close>;
  a \<^verbatim>\<open>null\<close> description is the empty payload.
\<close>

definition emit_answer :: "signalling \<Rightarrow> signalling" where
  "emit_answer sys =
     (case pcRef (page sys) of
        None \<Rightarrow> sys
      | Some pc \<Rightarrow>
          sys\<lparr>page := on_socket
                         (socket_emit
                            (SignalMsg (sessionTokenRef (page sys)) ''answer''
                               (case localDescription pc of None \<Rightarrow> [] | Some d \<Rightarrow> d)))
                         (page sys)\<rparr>)"

text \<open>The next element of the loop's iterator over the queue \<open>q\<close>, if it has one.\<close>

fun next_candidate :: "queue_iter \<Rightarrow> payload list \<Rightarrow> (payload \<times> queue_iter) option" where
  "next_candidate (Live i) q = (if i < length q then Some (q ! i, Live (Suc i)) else None)"
| "next_candidate (Detached []) q = None"
| "next_candidate (Detached (c # cs)) q = Some (c, Detached cs)"

text \<open>Another call's iterator when the array \<open>q\<close> stops being the queue.\<close>

fun detach :: "payload list \<Rightarrow> suspended_call \<Rightarrow> suspended_call" where
  "detach q (AtFlush ty (Live i)) = AtFlush ty (Detached (drop i q))"
| "detach q t = t"

text \<open>
  After the loop: \<^verbatim>\<open>iceCandidateQueueRef.current = []\<close>; the branch of an offer goes
  on to \<^verbatim>\<open>await pc.createAnswer()\<close>, the branch of an answer ends.
\<close>

definition after_flush :: "string \<Rightarrow> signalling \<Rightarrow> signalling" where
  "after_flush ty sys =
     (let sys1 = sys\<lparr>suspended := map (detach (iceCandidateQueueRef (page sys))) (suspended sys),
                     page := (page sys)\<lparr>iceCandidateQueueRef := []\<rparr>\<rparr>
      in if ty = ''offer'' then suspend AtCreateAnswer (call_pc CreateAnswer sys1) else sys1)"

text \<open>
  One turn of the loop: with a next candidate,
  \<^verbatim>\<open>try { await pc.addIceCandidate(candidate) } catch {}\<close>; without one, the loop ends.
\<close>

definition flush_next :: "string \<Rightarrow> queue_iter \<Rightarrow> signalling \<Rightarrow> signalling" where
  "flush_next ty it sys =
     (case next_candidate it (iceCandidateQueueRef (page sys)) of
        Some (c, it') \<Rightarrow> suspend (AtFlush ty it') (call_pc (AddIceCandidate c) sys)
      | None \<Rightarrow> after_flush ty sys)"

text \<open>
  The listener of \<^verbatim>\<open>src/unnamed/part_000\<close> up to its first \<^verbatim>\<open>await\<close>. Without a
  peer connection it returns. An offer or an answer is passed to
  \<^verbatim>\<open>setRemoteDescription\<close>. A candidate is passed to \<^verbatim>\<open>addIceCandidate\<close> when
  \<^verbatim>\<open>pc.remoteDescription\<close> is set, and pushed on the queue otherwise.
\<close>

definition signal_arrives :: "string \<Rightarrow> payload \<Rightarrow> signalling \<Rightarrow> signalling" where
  "signal_arrives ty data sys =
     (case pcRef (page sys) of
        None \<Rightarrow> sys
      | Some pc \<Rightarrow>
          (if ty = ''offer''
           then suspend (AtSetRemote ''offer'' data) (call_pc (SetRemoteDescription data) sys)
           else if ty = ''answer''
           then suspend (AtSetRemote ''answer'' data) (call_pc (SetRemoteDescription data) sys)
           else if ty = ''ice''
           then (if remoteDescription pc \<noteq> None
                 then suspend AtAddIce (call_pc (AddIceCandidate data) sys)
                 else sys\<lparr>page := (page sys)\<lparr>iceCandidateQueueRef :=
                                                iceCandidateQueueRef (page sys) @ [data]\<rparr>\<rparr>)
           else sys))"

text \<open>
  The rest of a call of that listener from the \<^verbatim>\<open>await\<close> it stands at. The browser
  sets \<^verbatim>\<open>pc.remoteDescription\<close> and \<^verbatim>\<open>pc.localDescription\<close> when the promise of the
  setter is fulfilled. A rejection in the loop or of a single candidate is caught
  and ignored; any other rejection reaches the outer \<^verbatim>\<open>catch\<close>.
\<close>

fun signal_resumes :: "suspended_call \<Rightarrow> settled \<Rightarrow> signalling \<Rightarrow> signalling" where
  "signal_resumes (AtSetRemote ty data) (Rejected msg) sys = signal_failed msg sys"
| "signal_resumes (AtSetRemote ty data) (Fulfilled v) sys =
     flush_next ty (Live 0) (on_pc (\<lambda>pc. pc\<lparr>remoteDescription := Some data\<rparr>) sys)"
| "signal_resumes (AtFlush ty it) res sys = flush_next ty it sys"
| "signal_resumes AtCreateAnswer (Rejected msg) sys = signal_failed msg sys"
| "signal_resumes AtCreateAnswer (Fulfilled answer) sys =
     suspend (AtSetLocal answer) (call_pc (SetLocalDescription answer) sys)"
| "signal_resumes (AtSetLocal answer) (Rejected msg) sys = signal_failed msg sys"
| "signal_resumes (AtSetLocal answer) (Fulfilled v) sys =
     emit_answer (on_pc (\<lambda>pc. pc\<lparr>localDescription := Some answer\<rparr>) sys)"
| "signal_resumes AtAddIce res sys = sys"

text \<open>
  The listener of \<^verbatim>\<open>src/src/app/page.js\<close>: no queue, no test of
  \<^verbatim>\<open>pc.remoteDescription\<close>, no outer \<^verbatim>\<open>catch\<close>. A candidate is passed to
  \<^verbatim>\<open>addIceCandidate\<close> at once and a rejection of that call is ignored; any other
  rejection ends the call.
\<close>

definition early_signal_arrives :: "string \<Rightarrow> payload \<Rightarrow> signalling \<Rightarrow> signalling" where
  "early_signal_arrives ty data sys =
     (case pcRef (page sys) of
        None \<Rightarrow> sys
      | Some pc \<Rightarrow>
          (if ty = ''offer''
           then suspend (AtSetRemote ''offer'' data) (call_pc (SetRemoteDescription data) sys)
           else if ty = ''answer''
           then suspend (AtSetRemote ''answer'' data) (call_pc (SetRemoteDescription data) sys)
           else if ty = ''ice''
           then suspend AtAddIce (call_pc (AddIceCandidate data) sys)
           else sys))"

fun early_signal_resumes :: "suspended_call \<Rightarrow> settled \<Rightarrow> signalling \<Rightarrow> signalling" where
  "early_signal_resumes (AtSetRemote ty data) (Fulfilled v) sys =
     (let sys1 = on_pc (\<lambda>pc. pc\<lparr>remoteDescription := Some data\<rparr>) sys
      in if ty = ''offer'' then suspend AtCreateAnswer (call_pc CreateAnswer sys1) else sys1)"
| "early_signal_resumes AtCreateAnswer (Fulfilled answer) sys =
     suspend (AtSetLocal answer) (call_pc (SetLocalDescription answer) sys)"
| "early_signal_resumes (AtSetLocal answer) (Fulfilled v) sys =
     emit_answer (on_pc (\<lambda>pc. pc\<lparr>localDescription := Some answer\<rparr>) sys)"
| "early_signal_resumes t res sys = sys"

text \<open>
  One event, and a sequence of events, for either listener: the promise that settles
  belongs to the suspended call with that number, which then is no longer suspended.
\<close>

definition unsuspend :: "nat \<Rightarrow> signalling \<Rightarrow> signalling" where
  "unsuspend i sys = sys\<lparr>suspended := take i (suspended sys) @ drop (Suc i) (suspended sys)\<rparr>"

fun sig_step :: "sig_event \<Rightarrow> signalling \<Rightarrow> signalling" where
  "sig_step (Arrives ty data) sys = signal_arrives ty data sys"
| "sig_step (Settles i res) sys =
     (if i < length (suspended sys)
      then signal_resumes (suspended sys ! i) res (unsuspend i sys)
      else sys)"

fun early_sig_step :: "sig_event \<Rightarrow> signalling \<Rightarrow> signalling" where
  "early_sig_step (Arrives ty data) sys = early_signal_arrives ty data sys"
| "early_sig_step (Settles i res) sys =
     (if i < length (suspended sys)
      then early_signal_resumes (suspended sys ! i) res (unsuspend i sys)
      else sys)"

fun sig_run :: "sig_event list \<Rightarrow> signalling \<Rightarrow> signalling" where
  "sig_run [] sys = sys"
| "sig_run (e # es) sys = sig_run es (sig_step e sys)"

fun early_sig_run :: "sig_event list \<Rightarrow> signalling \<Rightarrow> signalling" where
  "early_sig_run [] sys = sys"
| "early_sig_run (e # es) sys = early_sig_run es (early_sig_step e sys)"

subsection \<open>Receiving\<close>

text \<open>\<^verbatim>\<open>(a / b) * 100\<close> on JavaScript numbers.\<close>

definition percent :: "rat \<Rightarrow> rat \<Rightarrow> progress" where
  "percent a b = (if b = 0 then None else Some (a / b * 100))"

text \<open>\<^verbatim>\<open>meta && meta.type === "meta" && meta.name && meta.size != null\<close>.\<close>

definition is_meta :: "file_meta \<Rightarrow> bool" where
  "is_meta m =
     (m_type m = Some ''meta'' \<and>
      (case m_name m of None \<Rightarrow> False | Some n \<Rightarrow> n \<noteq> []) \<and>
      m_size m \<noteq> None)"

text \<open>\<^verbatim>\<open>x || d\<close> for a string property.\<close>

definition or_default :: "string option \<Rightarrow> string \<Rightarrow> string" where
  "or_default x d = (case x of None \<Rightarrow> d | Some v \<Rightarrow> (if v = [] then d else v))"

text \<open>\<^verbatim>\<open>recvMetaRef.current?.size || 1\<close>.\<close>

definition recv_total :: "file_meta option \<Rightarrow> int" where
  "recv_total mo =
     (case mo of
        None \<Rightarrow> 1
      | Some m \<Rightarrow> (case m_size m of None \<Rightarrow> 1 | Some n \<Rightarrow> (if n = 0 then 1 else n)))"

text \<open>\<^verbatim>\<open>recvMetaRef.current && recvBytesRef.current >= recvMetaRef.current.size\<close>.\<close>

definition recv_complete :: "file_meta option \<Rightarrow> nat \<Rightarrow> bool" where
  "recv_complete mo n =
     (case mo of
        None \<Rightarrow> False
      | Some m \<Rightarrow> (case m_size m of None \<Rightarrow> False | Some sz \<Rightarrow> sz \<le> int n))"

text \<open>
  The type a \<^verbatim>\<open>Blob\<close> gets from the \<^verbatim>\<open>type\<close> option of its constructor: the
  empty string if a character lies outside U+0020 to U+007E, otherwise the option in
  ASCII lower case.
\<close>

definition ascii_lower :: "char \<Rightarrow> char" where
  "ascii_lower c =
     (let n = (of_char c :: nat) in if 65 \<le> n \<and> n \<le> 90 then char_of (n + 32) else c)"

definition blob_type :: "string \<Rightarrow> string" where
  "blob_type t =
     (if list_all (\<lambda>c. 32 \<le> (of_char c :: nat) \<and> (of_char c :: nat) \<le> 126) t
      then map ascii_lower t else [])"

text \<open>
  The body of the \<^verbatim>\<open>if\<close> in \<^verbatim>\<open>storeChunk\<close>: the chunks become one blob, offered
  as a download; the status becomes \<^verbatim>\<open>completed\<close>; \<^verbatim>\<open>session-complete\<close> is emitted.
\<close>

definition finalize :: "file_meta \<Rightarrow> state \<Rightarrow> state" where
  "finalize m st =
     (let blob = concat (recvChunksRef st);
          st1 = st\<lparr>downloads := downloads st @
                        [Download (or_default (m_name m) ''download'')
                           (blob_type (or_default (m_mime m) ''application/octet-stream''))
                           blob]\<rparr>;
          st2 = st1\<lparr>status := Completed\<rparr>
      in on_socket (socket_emit (SessionComplete (sessionTokenRef st2))) st2)"

definition storeChunk :: "byte list \<Rightarrow> state \<Rightarrow> state" where
  "storeChunk arrayBuffer st =
     (let st1 = st\<lparr>recvChunksRef := recvChunksRef st @ [arrayBuffer]\<rparr>;
          st2 = st1\<lparr>recvBytesRef := recvBytesRef st1 + length arrayBuffer\<rparr>;
          total = recv_total (recvMetaRef st2);
          st3 = st2\<lparr>recvProgress := percent (of_nat (recvBytesRef st2)) (of_int total)\<rparr>
      in if recv_complete (recvMetaRef st3) (recvBytesRef st3)
         then (case recvMetaRef st3 of None \<Rightarrow> st3 | Some m \<Rightarrow> finalize m st3)
         else st3)"

text \<open>
  \<^verbatim>\<open>dc.onmessage\<close>. A text frame that does not parse sets the error status; one that
  parses to a meta object starts a new file; any other text is ignored. A binary
  frame goes to \<^verbatim>\<open>storeChunk\<close>.
\<close>

definition dc_onmessage :: "frame \<Rightarrow> state \<Rightarrow> state" where
  "dc_onmessage fr st =
     (case fr of
        TextFrame None \<Rightarrow>
          st\<lparr>error := ''Error handling received message'', status := Error\<rparr>
      | TextFrame (Some m) \<Rightarrow>
          (if is_meta m
           then st\<lparr>recvMetaRef := Some m, recvChunksRef := [], recvBytesRef := 0,
                   recvProgress := Some 0, status := Transferring\<rparr>
           else st)
      | BinaryFrame arrayBuffer \<Rightarrow> storeChunk arrayBuffer st)"

text \<open>The frames of an ordered, reliable channel, received one after the other.\<close>

fun receive_frames :: "frame list \<Rightarrow> state \<Rightarrow> state" where
  "receive_frames [] st = st"
| "receive_frames (fr # frs) st = receive_frames frs (dc_onmessage fr st)"

subsection \<open>Sending\<close>

text \<open>The object \<^verbatim>\<open>sendFile\<close> serialises as the file's first frame.\<close>

definition meta_of :: "js_file \<Rightarrow> file_meta" where
  "meta_of f =
     \<lparr>m_type = Some ''meta'', m_name = Some (f_name f), m_size = Some (int (f_size f)),
      m_mime = Some (f_type f), m_chunkSize = Some (int CHUNK_SIZE)\<rparr>"

definition frame_bytes :: "channel_platform \<Rightarrow> frame \<Rightarrow> nat" where
  "frame_bytes plat fr =
     (case fr of
        TextFrame None \<Rightarrow> 0
      | TextFrame (Some m) \<Rightarrow> text_bytes plat m
      | BinaryFrame b \<Rightarrow> length b)"

text \<open>
  \<^verbatim>\<open>dc.send(x)\<close>: on an open channel the frame is queued and \<^verbatim>\<open>bufferedAmount\<close>
  grows by its length; otherwise the call throws (\<open>None\<close>).
\<close>

definition dc_send :: "channel_platform \<Rightarrow> frame \<Rightarrow> data_channel \<Rightarrow> data_channel option" where
  "dc_send plat fr dc =
     (if readyState dc = RSOpen
      then (let b = bufferedAmount dc + frame_bytes plat fr
            in Some (dc\<lparr>bufferedAmount := b, dc_sent := dc_sent dc @ [(fr, b)]\<rparr>))
      else None)"

text \<open>\<^verbatim>\<open>files.reduce((sum, f) => sum + f.size, 0)\<close>.\<close>

definition total_size :: "js_file list \<Rightarrow> nat" where
  "total_size fs = sum_list (map f_size fs)"

text \<open>\<^verbatim>\<open>file.slice(a, b)\<close> read into an \<^verbatim>\<open>ArrayBuffer\<close>.\<close>

definition file_slice :: "js_file \<Rightarrow> nat \<Rightarrow> nat \<Rightarrow> byte list" where
  "file_slice f a b = take (b - a) (drop a (f_bytes f))"

text \<open>
  The flow-control step: above the threshold the sender waits for
  \<^verbatim>\<open>bufferedamountlow\<close>. \<open>None\<close>: the event never fires and the promise stays pending.
\<close>

definition await_low :: "chan_step \<Rightarrow> data_channel \<Rightarrow> data_channel option" where
  "await_low step dc =
     (if bufferedAmount dc > bufferedAmountLowThreshold dc
      then (case low_event step of
              None \<Rightarrow> None
            | Some b \<Rightarrow> Some (dc\<lparr>bufferedAmount := min b (bufferedAmountLowThreshold dc)\<rparr>))
      else Some dc)"

text \<open>
  The \<^verbatim>\<open>while (offset < file.size)\<close> loop of \<^verbatim>\<open>sendFile\<close>, on the channel \<open>dc\<close> the
  function read from \<open>dcRef\<close> at its start. \<^verbatim>\<open>selectedFiles\<close> and \<^verbatim>\<open>currentFileIndex\<close>
  are the captured values.
\<close>

function send_chunks ::
  "channel_platform \<Rightarrow> render \<Rightarrow> js_file \<Rightarrow> nat \<Rightarrow> data_channel \<Rightarrow> state
     \<Rightarrow> (data_channel \<times> state) outcome" where
  "send_chunks plat r f offset dc st =
     (if offset < f_size f
      then
        (let arrayBuffer = file_slice f offset (offset + CHUNK_SIZE);
             step = net plat (length (dc_sent dc));
             dc1 = dc\<lparr>bufferedAmount := bufferedAmount dc - drained step\<rparr>
         in case await_low step dc1 of
              None \<Rightarrow> Pending (dc1, st)
            | Some dc2 \<Rightarrow>
                (case dc_send plat (BinaryFrame arrayBuffer) dc2 of
                   None \<Rightarrow> Thrown ''InvalidStateError'' (dc2, st)
                 | Some dc3 \<Rightarrow>
                     (let offset' = offset + length arrayBuffer;
                          totalBytes = total_size (r_selectedFiles r);
                          sentBytes =
                            total_size (take (r_currentFileIndex r) (r_selectedFiles r))
                            + offset'
                      in send_chunks plat r f offset' dc3
                           (st\<lparr>sendProgress :=
                                 percent (of_nat sentBytes) (of_nat totalBytes)\<rparr>))))
      else Returned (dc, st))"
  by pat_completeness auto
termination
  by (relation "measure (\<lambda>(plat, r, f, offset, dc, st). f_size f - offset)")
     (auto simp: file_slice_def f_size_def CHUNK_SIZE_def)

declare send_chunks.simps [simp del]

definition sendFile ::
  "channel_platform \<Rightarrow> render \<Rightarrow> js_file \<Rightarrow> bool \<Rightarrow> state \<Rightarrow> state outcome" where
  "sendFile plat r f isLast st =
     (case dcRef st of
        None \<Rightarrow> Returned (st\<lparr>error := ''Waiting for peer connection...''\<rparr>)
      | Some dc \<Rightarrow>
          (if readyState dc \<noteq> RSOpen
           then Returned (st\<lparr>error := ''Waiting for peer connection...''\<rparr>)
           else
             (case dc_send plat (TextFrame (Some (meta_of f))) dc of
                None \<Rightarrow> Thrown ''InvalidStateError'' st
              | Some dc1 \<Rightarrow>
                  (case send_chunks plat r f 0 dc1 st of
                     Pending (dc2, st2) \<Rightarrow> Pending (st2\<lparr>dcRef := Some dc2\<rparr>)
                   | Thrown msg (dc2, st2) \<Rightarrow> Thrown msg (st2\<lparr>dcRef := Some dc2\<rparr>)
                   | Returned (dc2, st2) \<Rightarrow>
                       (let st3 = st2\<lparr>dcRef := Some dc2\<rparr>
                        in Returned
                             (if isLast
                              then on_socket
                                     (socket_emit (SessionComplete (sessionTokenRef st3)))
                                     (st3\<lparr>status := Completed, selectedFiles := [],
                                          currentFileIndex := 0\<rparr>)
                              else st3\<lparr>currentFileIndex := r_currentFileIndex r + 1\<rparr>))))))"

text \<open>
  The \<^verbatim>\<open>for\<close> loop of \<^verbatim>\<open>sendFiles\<close> over the files still to send; a file is the
  last one when no file follows it.
\<close>

fun sendFiles_loop ::
  "channel_platform \<Rightarrow> render \<Rightarrow> js_file list \<Rightarrow> state \<Rightarrow> state outcome" where
  "sendFiles_loop plat r [] st = Returned st"
| "sendFiles_loop plat r (f # fs) st =
     (case sendFile plat r f (fs = []) st of
        Returned st1 \<Rightarrow> sendFiles_loop plat r fs st1
      | Thrown msg st1 \<Rightarrow>
          Returned (st1\<lparr>error := ''File transfer failed: '' @ msg, status := Error\<rparr>)
      | Pending st1 \<Rightarrow> Pending st1)"

definition sendFiles :: "channel_platform \<Rightarrow> render \<Rightarrow> state \<Rightarrow> state outcome" where
  "sendFiles plat r st =
     (if r_selectedFiles r = [] \<or>
         (case dcRef st of None \<Rightarrow> True | Some dc \<Rightarrow> readyState dc \<noteq> RSOpen)
      then Returned (st\<lparr>error := ''No files selected or connection not ready.''\<rparr>)
      else sendFiles_loop plat r (r_selectedFiles r)
             (st\<lparr>status := Transferring, sendProgress := Some 0, currentFileIndex := 0\<rparr>))"

text \<open>The frames a channel was given, in order.\<close>

definition sent_frames :: "state \<Rightarrow> frame list" where
  "sent_frames st = (case dcRef st of None \<Rightarrow> [] | Some dc \<Rightarrow> map fst (dc_sent dc))"

subsection \<open>Notions used in the statements\<close>

text \<open>A token text of exactly 16 hexadecimal digits.\<close>

definition valid_token_text :: "string \<Rightarrow> bool" where
  "valid_token_text t = (length t = 16 \<and> set t \<subseteq> set ''0123456789abcdefABCDEF'')"

text \<open>The page after \<^verbatim>\<open>addIceCandidate\<close> was called with each of \<open>cs\<close>, in order.\<close>

definition called_with :: "payload list \<Rightarrow> signalling \<Rightarrow> signalling" where
  "called_with cs sys = on_pc (\<lambda>pc. pc\<lparr>pc_log := pc_log pc @ map AddIceCandidate cs\<rparr>) sys"

fun outcome_state :: "'a outcome \<Rightarrow> 'a" where
  "outcome_state (Returned x) = x"
| "outcome_state (Thrown msg x) = x"
| "outcome_state (Pending x) = x"

text \<open>
  A send log lists the frames passed to \<^verbatim>\<open>dc.send\<close>, each with the buffered amount
  right after the call. An entry is in order, \<open>prev\<close> being the buffered amount right
  after the send before it, when: a binary frame is at most one chunk long and left
  at most the threshold plus its own length in the buffer; a text frame left exactly
  \<open>prev\<close> plus its own length. A log is in order when every entry is.
\<close>

definition entry_ok :: "channel_platform \<Rightarrow> nat \<Rightarrow> nat \<Rightarrow> frame \<times> nat \<Rightarrow> bool" where
  "entry_ok plat thr prev e =
     (case fst e of
        BinaryFrame b \<Rightarrow> length b \<le> CHUNK_SIZE \<and> snd e \<le> thr + length b
      | TextFrame t \<Rightarrow> snd e = prev + frame_bytes plat (fst e))"

fun sends_ok :: "channel_platform \<Rightarrow> nat \<Rightarrow> nat \<Rightarrow> (frame \<times> nat) list \<Rightarrow> bool" where
  "sends_ok plat thr prev [] = True"
| "sends_ok plat thr prev (e # es) = (entry_ok plat thr prev e \<and> sends_ok plat thr (snd e) es)"

text \<open>The buffered amount right after the last send of a log, \<open>b\<close> if the log is empty.\<close>

fun last_amount :: "nat \<Rightarrow> (frame \<times> nat) list \<Rightarrow> nat" where
  "last_amount b [] = b"
| "last_amount b (e # es) = last_amount (snd e) es"

text \<open>
  The channel \<open>dc'\<close> is the channel \<open>dc\<close> after the sends \<open>new\<close>: same threshold and
  ready state, the log longer by \<open>new\<close>, which is in order, and a buffered amount of
  at most the one right after the last send.
\<close>

definition sent_since ::
  "channel_platform \<Rightarrow> data_channel \<Rightarrow> data_channel \<Rightarrow> (frame \<times> nat) list \<Rightarrow> bool" where
  "sent_since plat dc dc' new =
     (bufferedAmountLowThreshold dc' = bufferedAmountLowThreshold dc \<and>
      readyState dc' = readyState dc \<and>
      dc_sent dc' = dc_sent dc @ new \<and>
      sends_ok plat (bufferedAmountLowThreshold dc) (bufferedAmount dc) new \<and>
      bufferedAmount dc' \<le> last_amount (bufferedAmount dc) new)"

text \<open>
  Every entry of a send log left at most \<open>cap\<close> in the buffer, plus the lengths of
  the text frames sent since the last binary frame (\<open>metas\<close> for those sent before the
  log starts).
\<close>

fun excess_ok :: "channel_platform \<Rightarrow> nat \<Rightarrow> nat \<Rightarrow> (frame \<times> nat) list \<Rightarrow> bool" where
  "excess_ok plat cap metas [] = True"
| "excess_ok plat cap metas (e # es) =
     (case fst e of
        BinaryFrame b \<Rightarrow> snd e \<le> cap \<and> excess_ok plat cap 0 es
      | TextFrame t \<Rightarrow>
          snd e \<le> cap + (metas + frame_bytes plat (fst e)) \<and>
          excess_ok plat cap (metas + frame_bytes plat (fst e)) es)"

text \<open>A list cut into pieces of \<open>c\<close> elements, the last one possibly shorter.\<close>

function chunks :: "nat \<Rightarrow> 'a list \<Rightarrow> 'a list list" where
  "chunks c xs = (if c = 0 \<or> xs = [] then [] else take c xs # chunks c (drop c xs))"
  by pat_completeness auto
termination
  by (relation "measure (\<lambda>(c, xs). length xs)") auto

declare chunks.simps [simp del]

text \<open>
  The value \<^verbatim>\<open>sendFile\<close> passes to \<^verbatim>\<open>setSendProgress\<close> when the offset in the
  current file is \<open>offset\<close>.
\<close>

definition reported_progress :: "render \<Rightarrow> nat \<Rightarrow> progress" where
  "reported_progress r offset =
     percent
       (of_nat (total_size (take (r_currentFileIndex r) (r_selectedFiles r)) + offset))
       (of_nat (total_size (r_selectedFiles r)))"

text \<open>The frames of one file: its meta frame, then its content in chunks.\<close>

definition file_frames :: "js_file \<Rightarrow> frame list" where
  "file_frames f =
     TextFrame (Some (meta_of f)) # map BinaryFrame (chunks CHUNK_SIZE (f_bytes f))"

text \<open>Whenever the sender waits for \<^verbatim>\<open>bufferedamountlow\<close>, the event fires.\<close>

definition never_stalls :: "channel_platform \<Rightarrow> bool" where
  "never_stalls plat = (\<forall>k. low_event (net plat k) \<noteq> None)"

text \<open>The download a received file should produce.\<close>

definition download_of :: "js_file \<Rightarrow> download" where
  "download_of f =
     Download (f_name f)
       (blob_type (or_default (Some (f_type f)) ''application/octet-stream''))
       (f_bytes f)"

subsection \<open>Example sessions\<close>

definition ex_meta :: file_meta where
  "ex_meta =
     \<lparr>m_type = Some ''meta'', m_name = Some ''a.bin'', m_size = Some 3,
      m_mime = Some ''application/x-test'', m_chunkSize = Some 65536\<rparr>"

text \<open>A receiver that has just got the meta frame of \<open>ex_meta\<close>.\<close>

definition receiving_a :: state where
  "receiving_a = dc_onmessage (TextFrame (Some ex_meta)) initial_state"

text \<open>A fresh page on which a valid token was entered and Join was clicked.\<close>

definition guest_waiting :: state where
  "guest_waiting =
     joinSession (render_of initial_state) (Some ''0123456789abcdef'') initial_state"

text \<open>A browser that accepts every description.\<close>

definition accepting_rtc :: rtc_platform where
  "accepting_rtc =
     \<lparr>setLocalDescription_err = (\<lambda>pc d. None),
      createOffer_res = (\<lambda>pc. Inr ''offer-sdp'')\<rparr>"

text \<open>The guest after the relay's \<^verbatim>\<open>registered\<close> and \<^verbatim>\<open>ready\<close> events.\<close>

definition guest_ready :: state where
  "guest_ready = on_ready accepting_rtc (on_registered ''guest'' None guest_waiting)"

text \<open>The guest's page with no call of the signal listener suspended.\<close>

definition guest_signalling :: signalling where
  "guest_signalling = \<lparr>page = guest_ready, suspended = []\<rparr>"

text \<open>
  Three transports: one that never needs to be waited for, one that drains only
  when the sender waits (down to the threshold), and one that never drains.
\<close>

definition steady_channel :: channel_platform where
  "steady_channel =
     \<lparr>net = (\<lambda>k. \<lparr>drained = 0, low_event = Some 0\<rparr>), text_bytes = (\<lambda>m. 80)\<rparr>"

definition slow_channel :: channel_platform where
  "slow_channel =
     \<lparr>net = (\<lambda>k. \<lparr>drained = 0, low_event = Some (4 * 65536)\<rparr>),
      text_bytes = (\<lambda>m. 80)\<rparr>"

definition stalled_channel :: channel_platform where
  "stalled_channel =
     \<lparr>net = (\<lambda>k. \<lparr>drained = 0, low_event = None\<rparr>), text_bytes = (\<lambda>m. 80)\<rparr>"

text \<open>An open channel after \<^verbatim>\<open>bindDataChannel\<close>, and a host with files selected.\<close>

definition open_channel :: data_channel where
  "open_channel =
     \<lparr>readyState = RSOpen, bufferedAmount = 0,
      bufferedAmountLowThreshold = CHUNK_SIZE * 4, dc_sent = []\<rparr>"

definition host_connected :: "js_file list \<Rightarrow> state" where
  "host_connected fs =
     initial_state\<lparr>status := Connected, role := Some ''host'', roleRef := Some ''host'',
       selectedFiles := fs, dcRef := Some open_channel\<rparr>"

definition file_a :: js_file where
  "file_a = \<lparr>f_name = ''a.txt'', f_type = ''text/plain'', f_bytes = [1, 2]\<rparr>"

definition file_b :: js_file where
  "file_b = \<lparr>f_name = ''b.txt'', f_type = ''text/plain'', f_bytes = [3, 4]\<rparr>"

definition file_empty :: js_file where
  "file_empty = \<lparr>f_name = ''empty.txt'', f_type = ''text/plain'', f_bytes = []\<rparr>"

definition big_file :: js_file where
  "big_file =
     \<lparr>f_name = ''big.bin'', f_type = ''application/octet-stream'',
      f_bytes = replicate (5 * 65536) 0\<rparr>"

section \<open>Properties\<close>

lemmas session_defs =
  joinSession_def resetState_def cleanupRTC_def on_socket_def ensureSocket_def
  new_socket_def wireSocketEvents_def wired_events_def removeAllListeners_def
  removeEveryListener_def socket_on_def socket_emit_def render_of_def initial_state_def
  Let_def js_trim_def js_whitespace_def hex_class_def socket_disconnected_def
  run_disconnect_listener_def on_disconnect_def waiting_timeout_def
  waiting_timer_armed_def on_session_destroyed_def on_registered_def on_ready_def
  startWebRTC_def new_peer_conn_def

lemmas receive_defs =
  dc_onmessage_def storeChunk_def finalize_def is_meta_def recv_total_def
  recv_complete_def percent_def or_default_def blob_type_def ascii_lower_def
  on_socket_def socket_emit_def
  initial_state_def Let_def

lemmas send_defs =
  sendFiles_def sendFile_def send_chunks.simps dc_send_def await_low_def frame_bytes_def
  file_slice_def total_size_def f_size_def meta_of_def open_channel_def
  host_connected_def sent_frames_def CHUNK_SIZE_def render_of_def initial_state_def
  percent_def on_socket_def Let_def

subsection \<open>Token validation\<close>

lemma hex_class_iff: "hex_class c \<longleftrightarrow> c \<in> set ''0123456789abcdefABCDEF''"
proof
  assume h: "hex_class c"
  define n where "n = (of_char c :: nat)"
  from h have "n \<in> {48,49,50,51,52,53,54,55,56,57,65,66,67,68,69,70,97,98,99,100,101,102}"
    unfolding hex_class_def Let_def n_def[symmetric]
    by (simp only: insert_iff empty_iff) arith
  then have "(of_char c :: nat) \<in> of_char ` set ''0123456789abcdefABCDEF''"
    by (auto simp: n_def)
  then obtain c' where
    "c' \<in> set ''0123456789abcdefABCDEF''" "(of_char c :: nat) = of_char c'"
    by blast
  then show "c \<in> set ''0123456789abcdefABCDEF''" by simp
next
  assume "c \<in> set ''0123456789abcdefABCDEF''"
  then show "hex_class c" by (auto simp: hex_class_def)
qed

lemma regex_hex_plus_iff:
  "regex_hex_plus s \<longleftrightarrow> s \<noteq> [] \<and> (\<forall>c\<in>set s. hex_class c)"
  by (induction s rule: regex_hex_plus.induct) auto

lemma isValidToken_string:
  "isValidToken (JSString t) \<longleftrightarrow>
     length t = 16 \<and> (\<forall>c\<in>set t. c \<in> set ''0123456789abcdefABCDEF'')"
proof -
  have "length t = 16 \<Longrightarrow> t \<noteq> []" by auto
  then show ?thesis by (auto simp: regex_hex_plus_iff hex_class_iff)
qed

lemma isValidToken_text: "isValidToken (JSString t) = valid_token_text t"
  unfolding valid_token_text_def isValidToken_string by blast

text \<open>
  Claim C5. \<^verbatim>\<open>isValidToken\<close> accepts exactly the strings of 16 characters that are
  all hexadecimal digits, in either case; every other value is rejected: a value that
  is not a string, a string of another length, a string of 16 characters with one
  that is no hexadecimal digit.
\<close>

theorem isValidToken_iff:
  "isValidToken v \<longleftrightarrow>
     (\<exists>t. v = JSString t \<and> length t = 16 \<and>
          (\<forall>c\<in>set t. c \<in> set ''0123456789abcdefABCDEF''))"
proof (cases v)
  case (JSString t)
  then show ?thesis by (simp only: isValidToken_string) blast
qed simp_all

theorem isValidToken_iff_witness:
  "isValidToken (JSString ''0123456789abcdef'') \<and>
   isValidToken (JSString ''1A2b3C4d5E6f7890'') \<and>
   \<not> isValidToken (JSString ''abc'') \<and>
   \<not> isValidToken (JSString ''0123456789abcdeg'') \<and>
   \<not> isValidToken (JSString ''0123456789abcdef0'') \<and>
   \<not> isValidToken (JSNumber 1234567890123456) \<and>
   \<not> isValidToken JSUndefined"
  by (simp add: isValidToken_iff)

subsection \<open>Reset and join\<close>

lemma cleanupRTC_kept [simp]:
  "socketRef (cleanupRTC st) = socketRef st"
  "status (cleanupRTC st) = status st"
  "error (cleanupRTC st) = error st"
  "sessionTokenRef (cleanupRTC st) = sessionTokenRef st"
  by (simp_all add: cleanupRTC_def Let_def split: option.splits)

lemma cleanupRTC_released [simp]:
  "pcRef (cleanupRTC st) = None"
  "dcRef (cleanupRTC st) = None"
  "iceCandidateQueueRef (cleanupRTC st) = []"
  by (simp_all add: cleanupRTC_def Let_def split: option.splits)

lemma resetState_socketRef:
  "socketRef (resetState r st) =
     map_option (\<lambda>s. removeEveryListener (socket_emit (SessionCancel (r_sessionToken r)) s))
       (socketRef st)"
  by (simp add: resetState_def Let_def on_socket_def split: option.splits)

lemma resetState_fields [simp]:
  "status (resetState r st) = Idle"
  "error (resetState r st) = []"
  "sessionTokenRef (resetState r st) = sessionTokenRef st"
  "pcRef (resetState r st) = None"
  "dcRef (resetState r st) = None"
  "iceCandidateQueueRef (resetState r st) = []"
  by (simp_all add: resetState_def Let_def on_socket_def split: option.splits)

lemma guest_waiting_eq:
  "guest_waiting =
     initial_state\<lparr>status := Waiting, lastAction := ''join'',
       sessionToken := ''0123456789abcdef'', sessionTokenRef := Some ''0123456789abcdef'',
       socketRef := Some
         \<lparr>connected = False, open_calls = 1,
          listeners =
            [(''reconnect'', OnReconnect), (''reconnect_error'', OnReconnectError),
             (''connect_error'', OnConnectError), (''disconnect'', OnDisconnect Idle),
             (''registered'', OnRegistered), (''ready'', OnReady), (''signal'', OnSignal),
             (''error-message'', OnErrorMessage),
             (''session-destroyed'', OnSessionDestroyed)],
          emitted = [Register ''0123456789abcdef'']\<rparr>\<rparr>"
  unfolding guest_waiting_def by (simp add: session_defs)

lemma guest_ready_eq:
  "guest_ready =
     guest_waiting\<lparr>role := Some ''guest'', roleRef := Some ''guest'',
                    pcRef := Some new_peer_conn\<rparr>"
  unfolding guest_ready_def by (simp add: guest_waiting_eq session_defs)

lemma joinSession_rejects:
  assumes "\<forall>t. input = Some t \<longrightarrow> \<not> valid_token_text (js_trim t)"
  shows "joinSession r input st =
           (resetState r st)\<lparr>lastAction := ''join'', error := ''Invalid token.'',
                              status := Error\<rparr>"
  using assms
  by (cases input)
     (simp_all add: joinSession_def Let_def isValidToken_text del: isValidToken.simps)

text \<open>
  Claim C9, as the code has it. When the trimmed input is missing or is not a token
  of 16 hexadecimal digits, \<^verbatim>\<open>joinSession\<close> ends with the error
  \<^verbatim>\<open>Invalid token.\<close> and the status \<^verbatim>\<open>error\<close>; it creates no socket, starts no
  connection attempt and registers nothing. The one message it can emit is the
  \<^verbatim>\<open>session-cancel\<close> of the \<^verbatim>\<open>resetState\<close> it starts with, sent when a socket of an
  earlier session exists; that \<^verbatim>\<open>resetState\<close> also removes every listener of such a
  socket.
\<close>

theorem joinSession_invalid_token:
  assumes "\<forall>t. input = Some t \<longrightarrow> \<not> valid_token_text (js_trim t)"
  shows "status (joinSession r input st) = Error \<and>
         error (joinSession r input st) = ''Invalid token.'' \<and>
         sessionTokenRef (joinSession r input st) = sessionTokenRef st \<and>
         map_option connected (socketRef (joinSession r input st)) =
           map_option connected (socketRef st) \<and>
         map_option open_calls (socketRef (joinSession r input st)) =
           map_option open_calls (socketRef st) \<and>
         map_option emitted (socketRef (joinSession r input st)) =
           map_option (\<lambda>s. emitted s @ [SessionCancel (r_sessionToken r)]) (socketRef st) \<and>
         map_option listeners (socketRef (joinSession r input st)) =
           map_option (\<lambda>s. []) (socketRef st)"
  unfolding joinSession_rejects [OF assms]
  by (simp add: resetState_socketRef option.map_comp comp_def removeEveryListener_def
      socket_emit_def)

theorem joinSession_invalid_token_witness:
  "\<not> valid_token_text (js_trim ''0123456789abcde'') \<and>
   status (joinSession (render_of initial_state) (Some ''0123456789abcde'') initial_state)
     = Error \<and>
   error (joinSession (render_of initial_state) (Some ''0123456789abcde'') initial_state)
     = ''Invalid token.'' \<and>
   socketRef (joinSession (render_of initial_state) (Some ''0123456789abcde'') initial_state)
     = None"
proof -
  have h: "\<forall>t. Some ''0123456789abcde'' = Some t \<longrightarrow> \<not> valid_token_text (js_trim t)"
    by (simp add: valid_token_text_def js_trim_def js_whitespace_def)
  have s: "socketRef initial_state = None"
    by (simp add: initial_state_def)
  show ?thesis
    using joinSession_invalid_token [OF h, of "render_of initial_state" initial_state] h s
    by simp
qed

text \<open>
  Claim C9 as stated fails: after a first join with a valid token, a join with the
  token \<^verbatim>\<open>abc\<close> emits \<^verbatim>\<open>session-cancel\<close> on the existing socket and removes its
  listeners.
\<close>

theorem joinSession_invalid_token_counterexample:
  "\<not> valid_token_text (js_trim ''abc'') \<and>
   map_option emitted (socketRef guest_waiting) = Some [Register ''0123456789abcdef''] \<and>
   map_option emitted
     (socketRef (joinSession (render_of guest_waiting) (Some ''abc'') guest_waiting)) =
     Some [Register ''0123456789abcdef'', SessionCancel ''0123456789abcdef''] \<and>
   map_option (\<lambda>s. length (listeners s)) (socketRef guest_waiting) = Some 9 \<and>
   map_option listeners
     (socketRef (joinSession (render_of guest_waiting) (Some ''abc'') guest_waiting)) =
     Some []"
  by (simp add: guest_waiting_eq session_defs valid_token_text_def)

subsection \<open>Relay disconnect\<close>

lemma on_disconnect_status:
  "reason \<noteq> ''io client disconnect'' \<Longrightarrow>
     status (on_disconnect captured reason st) =
       (if captured \<noteq> Completed then Error else status st)"
  by (simp add: on_disconnect_def Let_def)

lemma wireSocketEvents_disconnect:
  "filter (\<lambda>p. fst p = ''disconnect'') (listeners (wireSocketEvents r s)) =
     [(''disconnect'', OnDisconnect (r_status r))]"
  by (simp add: wireSocketEvents_def wired_events_def removeAllListeners_def socket_on_def
      Let_def filter_filter conj_commute)

text \<open>
  Claim C7 on the code. The guest joins from a render whose status is \<^verbatim>\<open>idle\<close>, so
  its disconnect listener captured \<^verbatim>\<open>idle\<close>. After \<^verbatim>\<open>registered\<close> and \<^verbatim>\<open>ready\<close>
  it receives a meta frame and the three bytes of the file: the status is
  \<^verbatim>\<open>completed\<close>. A relay disconnect with reason \<^verbatim>\<open>transport close\<close> now sets the
  status to \<^verbatim>\<open>error\<close>: the listener compares the captured status, not the current
  one.
\<close>

theorem disconnect_after_completed_sets_error:
  "status (receive_frames [TextFrame (Some ex_meta), BinaryFrame [1, 2, 3]] guest_ready)
     = Completed \<and>
   status (socket_disconnected ''transport close''
             (receive_frames [TextFrame (Some ex_meta), BinaryFrame [1, 2, 3]] guest_ready))
     = Error"
  by (simp add: guest_ready_eq guest_waiting_eq session_defs receive_defs ex_meta_def)

subsection \<open>The waiting timeout\<close>

lemma waiting_timeout_result:
  assumes "r_status r = Waiting"
  shows "waiting_timeout r st =
           resetState r (st\<lparr>error := ''Connection timeout: peer did not connect in time.'',
                             status := Error\<rparr>)"
  using assms by (simp add: waiting_timeout_def Let_def)

lemma waiting_timeout_fields:
  assumes "r_status r = Waiting"
  shows "status (waiting_timeout r st) = Idle" and "error (waiting_timeout r st) = []"
    and "pcRef (waiting_timeout r st) = None" and "dcRef (waiting_timeout r st) = None"
  unfolding waiting_timeout_result [OF assms] by simp_all

text \<open>
  Claim C8 on the code. The guest waits; the timer of that render is armed. When it
  fires, the callback sets the timeout message and the status \<^verbatim>\<open>error\<close> and then
  calls \<^verbatim>\<open>resetState\<close>, which sets the status to \<^verbatim>\<open>idle\<close> and clears the message:
  the session is torn down, but the status ends as \<^verbatim>\<open>idle\<close>, not \<^verbatim>\<open>error\<close>.
\<close>

theorem waiting_timeout_ends_idle:
  "waiting_timer_armed (render_of guest_waiting) \<and>
   status (waiting_timeout (render_of guest_waiting) guest_waiting) = Idle \<and>
   error (waiting_timeout (render_of guest_waiting) guest_waiting) = [] \<and>
   pcRef (waiting_timeout (render_of guest_waiting) guest_waiting) = None \<and>
   dcRef (waiting_timeout (render_of guest_waiting) guest_waiting) = None \<and>
   map_option emitted (socketRef (waiting_timeout (render_of guest_waiting) guest_waiting)) =
     Some [Register ''0123456789abcdef'', SessionCancel ''0123456789abcdef'']"
  by (simp add: guest_waiting_eq session_defs)

subsection \<open>ICE candidates\<close>

lemmas signal_defs =
  signal_arrives_def early_signal_arrives_def suspend_def call_pc_def on_pc_def
  pc_called_def unsuspend_def flush_next_def after_flush_def emit_answer_def
  signal_failed_def on_socket_def socket_emit_def guest_signalling_def new_peer_conn_def
  Let_def

lemma guest_ready_fields:
  "pcRef guest_ready = Some new_peer_conn"
  "iceCandidateQueueRef guest_ready = []"
  "sessionTokenRef guest_ready = Some ''0123456789abcdef''"
  "status guest_ready = Waiting"
  "map_option emitted (socketRef guest_ready) = Some [Register ''0123456789abcdef'']"
  by (simp_all add: guest_ready_eq guest_waiting_eq initial_state_def)

text \<open>
  The listener of \<^verbatim>\<open>src/unnamed/part_000\<close>. A candidate that arrives while the remote
  description is unset is appended to the queue; no method of the connection is
  called and no call is left suspended.
\<close>

lemma ice_arrival_queued:
  assumes "pcRef (page sys) = Some pc" "remoteDescription pc = None"
  shows "signal_arrives ''ice'' c sys =
           sys\<lparr>page := (page sys)\<lparr>iceCandidateQueueRef :=
                                      iceCandidateQueueRef (page sys) @ [c]\<rparr>\<rparr>"
  using assms by (simp add: signal_arrives_def)

lemma ice_arrivals_queued:
  assumes "pcRef (page sys) = Some pc" "remoteDescription pc = None"
  shows "sig_run (map (Arrives ''ice'') cs) sys =
           sys\<lparr>page := (page sys)\<lparr>iceCandidateQueueRef :=
                                      iceCandidateQueueRef (page sys) @ cs\<rparr>\<rparr>"
  using assms
proof (induction cs arbitrary: sys)
  case Nil
  then show ?case by simp
next
  case (Cons c cs)
  let ?sys1 = "sys\<lparr>page := (page sys)\<lparr>iceCandidateQueueRef :=
                                          iceCandidateQueueRef (page sys) @ [c]\<rparr>\<rparr>"
  have 1: "signal_arrives ''ice'' c sys = ?sys1"
    using Cons.prems by (rule ice_arrival_queued)
  have "pcRef (page ?sys1) = Some pc" using Cons.prems(1) by simp
  from Cons.IH [OF this Cons.prems(2)] show ?case by (simp add: 1)
qed

text \<open>
  When the remote description is set, a candidate is passed to
  \<^verbatim>\<open>addIceCandidate\<close> at once.
\<close>

lemma ice_arrival_applied:
  assumes "pcRef (page sys) = Some pc" "remoteDescription pc \<noteq> None"
  shows "signal_arrives ''ice'' c sys =
           sys\<lparr>page := (page sys)\<lparr>pcRef := Some (pc\<lparr>pc_log := pc_log pc @ [AddIceCandidate c]\<rparr>)\<rparr>,
               suspended := suspended sys @ [AtAddIce]\<rparr>"
  using assms by (auto simp: signal_arrives_def suspend_def call_pc_def on_pc_def pc_called_def)

text \<open>
  The loop over the queue, when no other call of the listener runs in between: from
  index \<open>i\<close> on, every queued candidate is passed to \<^verbatim>\<open>addIceCandidate\<close>, in queue
  order and however the earlier calls settled; then the code after the loop runs.
\<close>

lemma called_with_Nil:
  assumes "pcRef (page sys) = Some pc"
  shows "called_with [] sys = sys"
proof -
  have "(page sys)\<lparr>pcRef := Some pc\<rparr> = page sys"
    using assms by (cases "page sys") simp
  then show ?thesis
    using assms by (simp add: called_with_def on_pc_def)
qed

lemma called_with_Cons:
  assumes "pcRef (page sys) = Some pc"
  shows "called_with cs (call_pc (AddIceCandidate c) sys) = called_with (c # cs) sys"
  using assms by (simp add: called_with_def call_pc_def on_pc_def pc_called_def)

lemma flush_next_run:
  assumes "pcRef (page sys) = Some pc" "suspended sys = []"
    and "i \<le> length (iceCandidateQueueRef (page sys))"
    and "length rs = length (iceCandidateQueueRef (page sys)) - i"
  shows "sig_run (map (Settles 0) rs) (flush_next ty (Live i) sys) =
           after_flush ty (called_with (drop i (iceCandidateQueueRef (page sys))) sys)"
  using assms
proof (induction rs arbitrary: i sys pc)
  case Nil
  then have "i = length (iceCandidateQueueRef (page sys))" by simp
  then show ?case
    using called_with_Nil [OF Nil.prems(1)] by (simp add: flush_next_def)
next
  case (Cons res rs)
  let ?q = "iceCandidateQueueRef (page sys)"
  let ?sys1 = "call_pc (AddIceCandidate (?q ! i)) sys"
  from Cons.prems have i: "i < length ?q" by simp
  have first: "flush_next ty (Live i) sys = suspend (AtFlush ty (Live (Suc i))) ?sys1"
    using i by (simp add: flush_next_def)
  have sys1: "pcRef (page ?sys1) = Some (pc_called (AddIceCandidate (?q ! i)) pc)"
      "suspended ?sys1 = []" "iceCandidateQueueRef (page ?sys1) = ?q"
    using Cons.prems(1,2) by (simp_all add: call_pc_def on_pc_def)
  have settle: "sig_step (Settles 0 res) (suspend (AtFlush ty (Live (Suc i))) ?sys1) =
                  flush_next ty (Live (Suc i)) ?sys1"
  proof -
    have "unsuspend 0 (suspend (AtFlush ty (Live (Suc i))) ?sys1) = ?sys1"
      using sys1(2) by (simp add: unsuspend_def suspend_def)
    then show ?thesis using sys1(2) by (simp add: suspend_def)
  qed
  have "sig_run (map (Settles 0) rs) (flush_next ty (Live (Suc i)) ?sys1) =
          after_flush ty (called_with (drop (Suc i) (iceCandidateQueueRef (page ?sys1))) ?sys1)"
    using Cons.prems(4) i sys1
    by (intro Cons.IH [of ?sys1 "pc_called (AddIceCandidate (?q ! i)) pc" "Suc i"]) simp_all
  also have "called_with (drop (Suc i) (iceCandidateQueueRef (page ?sys1))) ?sys1 =
               called_with (?q ! i # drop (Suc i) ?q) sys"
    unfolding sys1(3) using Cons.prems(1) by (rule called_with_Cons)
  also have "?q ! i # drop (Suc i) ?q = drop i ?q"
    using i by (rule Cons_nth_drop_Suc)
  finally have "sig_run (map (Settles 0) rs) (flush_next ty (Live (Suc i)) ?sys1) =
                  after_flush ty (called_with (drop i ?q) sys)" .
  then show ?case
    unfolding first by (simp only: list.map sig_run.simps settle)
qed

text \<open>
  So, in \<^verbatim>\<open>src/unnamed/part_000\<close>: when the promise of \<^verbatim>\<open>setRemoteDescription\<close> is
  fulfilled the remote description is set, and with one settled promise per queued
  candidate the whole queue has been passed to \<^verbatim>\<open>addIceCandidate\<close>, in arrival
  order, right after \<^verbatim>\<open>setRemoteDescription\<close>; the queue is then empty. When the
  promise is rejected, the queue is kept and the status becomes \<^verbatim>\<open>error\<close>.
\<close>

lemma queue_flushed_in_order:
  assumes "pcRef (page sys) = Some pc" "suspended sys = [AtSetRemote ty data]"
    and "length rs = length (iceCandidateQueueRef (page sys))"
  shows "sig_run (Settles 0 (Fulfilled v) # map (Settles 0) rs) sys =
           after_flush ty
             (called_with (iceCandidateQueueRef (page sys))
                (on_pc (\<lambda>pc. pc\<lparr>remoteDescription := Some data\<rparr>) (sys\<lparr>suspended := []\<rparr>)))"
proof -
  let ?sys1 = "on_pc (\<lambda>pc. pc\<lparr>remoteDescription := Some data\<rparr>) (sys\<lparr>suspended := []\<rparr>)"
  have first: "sig_step (Settles 0 (Fulfilled v)) sys = flush_next ty (Live 0) ?sys1"
    using assms(2) by (simp add: unsuspend_def)
  have sys1: "pcRef (page ?sys1) = Some (pc\<lparr>remoteDescription := Some data\<rparr>)"
      "suspended ?sys1 = []" "iceCandidateQueueRef (page ?sys1) = iceCandidateQueueRef (page sys)"
    using assms(1) by (simp_all add: on_pc_def)
  have "sig_run (map (Settles 0) rs) (flush_next ty (Live 0) ?sys1) =
          after_flush ty (called_with (drop 0 (iceCandidateQueueRef (page ?sys1))) ?sys1)"
    using assms(3) sys1 by (intro flush_next_run [of ?sys1 _ 0]) simp_all
  then have "sig_run (map (Settles 0) rs) (flush_next ty (Live 0) ?sys1) =
               after_flush ty (called_with (iceCandidateQueueRef (page sys)) ?sys1)"
    by (simp only: drop_0 sys1(3))
  then show ?thesis
    by (simp only: sig_run.simps first)
qed

lemma queue_flushed_fields:
  assumes "pcRef (page sys) = Some pc" "suspended sys = [AtSetRemote ty data]"
    and "length rs = length (iceCandidateQueueRef (page sys))"
  shows "map_option pc_log
           (pcRef (page (sig_run (Settles 0 (Fulfilled v) # map (Settles 0) rs) sys))) =
           Some (pc_log pc @ map AddIceCandidate (iceCandidateQueueRef (page sys)) @
                 (if ty = ''offer'' then [CreateAnswer] else []))"
    and "map_option remoteDescription
           (pcRef (page (sig_run (Settles 0 (Fulfilled v) # map (Settles 0) rs) sys))) =
           Some (Some data)"
    and "iceCandidateQueueRef
           (page (sig_run (Settles 0 (Fulfilled v) # map (Settles 0) rs) sys)) = []"
  unfolding queue_flushed_in_order [OF assms]
  using assms(1)
  by (simp_all add: after_flush_def called_with_def on_pc_def call_pc_def suspend_def
      pc_called_def Let_def)

lemma rejected_description_keeps_queue:
  assumes "suspended sys = [AtSetRemote ty data]"
  shows "sig_step (Settles 0 (Rejected msg)) sys =
           sys\<lparr>suspended := [],
               page := (page sys)\<lparr>error := ''Signaling error: '' @ msg, status := Error\<rparr>\<rparr>"
  using assms by (simp add: unsuspend_def signal_failed_def)

text \<open>
  A candidate that arrives while the loop waits for \<^verbatim>\<open>addIceCandidate\<close> finds the
  remote description set and is applied at once, before the queued candidates the
  loop has not reached yet: with \<open>c1\<close> and \<open>c2\<close> queued and \<open>c3\<close> arriving during
  the loop, the calls are \<open>c1\<close>, \<open>c3\<close>, \<open>c2\<close>.
\<close>

lemma late_candidate_overtakes:
  "map_option pc_log
     (pcRef (page (sig_run
        [Arrives ''ice'' ''c1'', Arrives ''ice'' ''c2'', Arrives ''answer'' ''sdp'',
         Settles 0 (Fulfilled []), Arrives ''ice'' ''c3'', Settles 0 (Fulfilled []),
         Settles 0 (Fulfilled []), Settles 0 (Fulfilled [])]
        guest_signalling))) =
     Some [SetRemoteDescription ''sdp'', AddIceCandidate ''c1'', AddIceCandidate ''c3'',
           AddIceCandidate ''c2'']"
  by (simp add: guest_ready_fields signal_defs)

text \<open>
  The listener of \<^verbatim>\<open>src/src/app/page.js\<close>. Every candidate is passed to
  \<^verbatim>\<open>addIceCandidate\<close> on arrival, whether the remote description is set or not;
  the queue is not touched.
\<close>

lemma early_ice_arrival_applied:
  assumes "pcRef (page sys) = Some pc"
  shows "early_signal_arrives ''ice'' c sys =
           sys\<lparr>page := (page sys)\<lparr>pcRef := Some (pc\<lparr>pc_log := pc_log pc @ [AddIceCandidate c]\<rparr>)\<rparr>,
               suspended := suspended sys @ [AtAddIce]\<rparr>"
  using assms
  by (simp add: early_signal_arrives_def suspend_def call_pc_def on_pc_def pc_called_def)

lemma early_never_queues:
  "iceCandidateQueueRef (page (early_sig_step e sys)) = iceCandidateQueueRef (page sys)"
proof (cases e)
  case (Arrives ty data)
  then show ?thesis
    by (simp add: early_signal_arrives_def suspend_def call_pc_def on_pc_def
        split: option.splits)
next
  case (Settles i res)
  have "iceCandidateQueueRef (page (early_signal_resumes t res s)) =
          iceCandidateQueueRef (page s)" for t s
    by (cases "(t, res, s)" rule: early_signal_resumes.cases)
       (simp_all add: suspend_def call_pc_def on_pc_def emit_answer_def on_socket_def Let_def
          split: option.splits)
  then show ?thesis using Settles by (simp add: unsuspend_def)
qed

text \<open>
  Claim C1 on the code. The guest has a peer connection without a remote
  description, and the candidate \<open>c1\<close> arrives before the offer. The listener of
  \<^verbatim>\<open>src/src/app/page.js\<close> passes \<open>c1\<close> to \<^verbatim>\<open>addIceCandidate\<close> at once, with the
  remote description still unset, and buffers nothing; the call is rejected and the
  rejection ignored. When the offer has arrived and the remote description is set,
  \<open>c1\<close> is not applied again: the calls made are \<^verbatim>\<open>addIceCandidate(c1)\<close>,
  \<^verbatim>\<open>setRemoteDescription\<close>, \<^verbatim>\<open>createAnswer\<close>, \<^verbatim>\<open>setLocalDescription\<close>, and the answer
  is emitted, so negotiation did not fail. On the same messages the listener of
  \<^verbatim>\<open>src/unnamed/part_000\<close> queues \<open>c1\<close> and applies it right after
  \<^verbatim>\<open>setRemoteDescription\<close>.
\<close>

theorem early_candidate_not_buffered:
  "map_option remoteDescription (pcRef (page guest_signalling)) = Some None \<and>
   map_option pc_log
     (pcRef (page (early_sig_run [Arrives ''ice'' ''c1''] guest_signalling))) =
     Some [AddIceCandidate ''c1''] \<and>
   map_option remoteDescription
     (pcRef (page (early_sig_run [Arrives ''ice'' ''c1''] guest_signalling))) = Some None \<and>
   iceCandidateQueueRef (page (early_sig_run [Arrives ''ice'' ''c1''] guest_signalling)) = [] \<and>
   map_option pc_log
     (pcRef (page (early_sig_run
        [Arrives ''ice'' ''c1'', Settles 0 (Rejected ''InvalidStateError''),
         Arrives ''offer'' ''offer-sdp'', Settles 0 (Fulfilled []),
         Settles 0 (Fulfilled ''answer-sdp''), Settles 0 (Fulfilled [])]
        guest_signalling))) =
     Some [AddIceCandidate ''c1'', SetRemoteDescription ''offer-sdp'', CreateAnswer,
           SetLocalDescription ''answer-sdp''] \<and>
   map_option emitted
     (socketRef (page (early_sig_run
        [Arrives ''ice'' ''c1'', Settles 0 (Rejected ''InvalidStateError''),
         Arrives ''offer'' ''offer-sdp'', Settles 0 (Fulfilled []),
         Settles 0 (Fulfilled ''answer-sdp''), Settles 0 (Fulfilled [])]
        guest_signalling))) =
     Some [Register ''0123456789abcdef'',
           SignalMsg (Some ''0123456789abcdef'') ''answer'' ''answer-sdp''] \<and>
   status (page (early_sig_run
        [Arrives ''ice'' ''c1'', Settles 0 (Rejected ''InvalidStateError''),
         Arrives ''offer'' ''offer-sdp'', Settles 0 (Fulfilled []),
         Settles 0 (Fulfilled ''answer-sdp''), Settles 0 (Fulfilled [])]
        guest_signalling)) = Waiting \<and>
   iceCandidateQueueRef (page (sig_run [Arrives ''ice'' ''c1''] guest_signalling)) =
     [''c1''] \<and>
   map_option pc_log (pcRef (page (sig_run [Arrives ''ice'' ''c1''] guest_signalling))) =
     Some [] \<and>
   map_option pc_log
     (pcRef (page (sig_run
        [Arrives ''ice'' ''c1'', Arrives ''offer'' ''offer-sdp'', Settles 0 (Fulfilled []),
         Settles 0 (Fulfilled []), Settles 0 (Fulfilled ''answer-sdp''),
         Settles 0 (Fulfilled [])]
        guest_signalling))) =
     Some [SetRemoteDescription ''offer-sdp'', AddIceCandidate ''c1'', CreateAnswer,
           SetLocalDescription ''answer-sdp'']"
proof -
  obtain s where s: "socketRef guest_ready = Some s"
      "emitted s = [Register ''0123456789abcdef'']"
    using guest_ready_fields(5) by (cases "socketRef guest_ready") auto
  show ?thesis
    by (simp add: guest_ready_fields(1-4) s signal_defs)
qed

subsection \<open>Receiving\<close>

lemma finalize_fields:
  "downloads (finalize m st) =
     downloads st @ [Download (or_default (m_name m) ''download'')
                       (blob_type (or_default (m_mime m) ''application/octet-stream''))
                       (concat (recvChunksRef st))]"
  "status (finalize m st) = Completed"
  "map_option emitted (socketRef (finalize m st)) =
     map_option (\<lambda>s. emitted s @ [SessionComplete (sessionTokenRef st)]) (socketRef st)"
  "recvChunksRef (finalize m st) = recvChunksRef st"
  "recvBytesRef (finalize m st) = recvBytesRef st"
  "recvMetaRef (finalize m st) = recvMetaRef st"
  by (simp_all add: finalize_def Let_def on_socket_def socket_emit_def split: option.splits)

lemma storeChunk_buffers:
  "recvChunksRef (storeChunk buf st) = recvChunksRef st @ [buf]"
  "recvBytesRef (storeChunk buf st) = recvBytesRef st + length buf"
  "recvMetaRef (storeChunk buf st) = recvMetaRef st"
  by (simp_all add: storeChunk_def Let_def finalize_fields split: option.splits)

lemma storeChunk_below:
  assumes "\<not> recv_complete (recvMetaRef st) (recvBytesRef st + length buf)"
  shows "downloads (storeChunk buf st) = downloads st"
    and "status (storeChunk buf st) = status st"
    and "socketRef (storeChunk buf st) = socketRef st"
  using assms by (simp_all add: storeChunk_def Let_def)

lemma storeChunk_reached:
  assumes "recvMetaRef st = Some m" "recv_complete (Some m) (recvBytesRef st + length buf)"
  shows "downloads (storeChunk buf st) =
           downloads st @ [Download (or_default (m_name m) ''download'')
                             (blob_type (or_default (m_mime m) ''application/octet-stream''))
                             (concat (recvChunksRef st) @ buf)]"
    and "status (storeChunk buf st) = Completed"
    and "map_option emitted (socketRef (storeChunk buf st)) =
           map_option (\<lambda>s. emitted s @ [SessionComplete (sessionTokenRef st)]) (socketRef st)"
  using assms by (simp_all add: storeChunk_def Let_def finalize_fields)

lemma recv_complete_iff:
  "recv_complete mo n \<longleftrightarrow> (\<exists>m sz. mo = Some m \<and> m_size m = Some sz \<and> sz \<le> int n)"
  by (auto simp: recv_complete_def split: option.splits)

lemma text_frame_no_download:
  "downloads (dc_onmessage (TextFrame t) st) = downloads st"
  by (simp add: dc_onmessage_def split: option.splits)

lemma receiving_a_eq:
  "receiving_a =
     initial_state\<lparr>recvMetaRef := Some ex_meta, recvChunksRef := [], recvBytesRef := 0,
                    recvProgress := Some 0, status := Transferring\<rparr>"
  by (simp add: receiving_a_def dc_onmessage_def is_meta_def ex_meta_def)

text \<open>
  What one frame does. A file is handed over exactly when the frame is binary, a
  \<^verbatim>\<open>FileMeta\<close> is current, and the byte counter, with the frame's length added, has
  reached or passed the declared size. Then the download is the concatenation of the
  buffered chunks and the frame, the status becomes \<^verbatim>\<open>completed\<close> and
  \<^verbatim>\<open>session-complete\<close> is emitted. While the counter stays below the declared size
  nothing is finalized: downloads, status and socket are unchanged.
\<close>

lemma binary_frame_finalizes_iff:
  "(downloads (dc_onmessage fr st) \<noteq> downloads st \<longleftrightarrow>
      (\<exists>buf m sz. fr = BinaryFrame buf \<and> recvMetaRef st = Some m \<and> m_size m = Some sz \<and>
                  sz \<le> int (recvBytesRef st + length buf))) \<and>
   (\<forall>buf m sz. fr = BinaryFrame buf \<and> recvMetaRef st = Some m \<and> m_size m = Some sz \<and>
               sz \<le> int (recvBytesRef st + length buf) \<longrightarrow>
      downloads (dc_onmessage fr st) =
        downloads st @ [Download (or_default (m_name m) ''download'')
                          (blob_type (or_default (m_mime m) ''application/octet-stream''))
                          (concat (recvChunksRef st) @ buf)] \<and>
      status (dc_onmessage fr st) = Completed \<and>
      map_option emitted (socketRef (dc_onmessage fr st)) =
        map_option (\<lambda>s. emitted s @ [SessionComplete (sessionTokenRef st)]) (socketRef st)) \<and>
   (\<forall>buf m sz. fr = BinaryFrame buf \<and> recvMetaRef st = Some m \<and> m_size m = Some sz \<and>
               int (recvBytesRef st + length buf) < sz \<longrightarrow>
      downloads (dc_onmessage fr st) = downloads st \<and>
      status (dc_onmessage fr st) = status st \<and>
      socketRef (dc_onmessage fr st) = socketRef st)"
proof (cases fr)
  case (TextFrame t)
  then show ?thesis by (simp add: text_frame_no_download)
next
  case (BinaryFrame buf)
  have eq: "dc_onmessage fr st = storeChunk buf st"
    by (simp add: BinaryFrame dc_onmessage_def)
  show ?thesis
  proof (cases "recv_complete (recvMetaRef st) (recvBytesRef st + length buf)")
    case True
    then obtain m sz where m: "recvMetaRef st = Some m" "m_size m = Some sz"
        "sz \<le> int (recvBytesRef st + length buf)"
      unfolding recv_complete_iff by blast
    from True m have rc: "recv_complete (Some m) (recvBytesRef st + length buf)" by simp
    show ?thesis
      unfolding eq using storeChunk_reached [OF m(1) rc] m
      by (auto simp: BinaryFrame)
  next
    case False
    then have none: "\<not> (\<exists>m sz. recvMetaRef st = Some m \<and> m_size m = Some sz \<and>
                  sz \<le> int (recvBytesRef st + length buf))"
      unfolding recv_complete_iff by blast
    show ?thesis
      unfolding eq using storeChunk_below [OF False] none
      by (auto simp: BinaryFrame)
  qed
qed

lemma receiving_a_example:
  "downloads (dc_onmessage (BinaryFrame [1, 2]) receiving_a) = [] \<and>
   status (dc_onmessage (BinaryFrame [1, 2]) receiving_a) = Transferring \<and>
   downloads (dc_onmessage (BinaryFrame [1, 2, 3]) receiving_a) =
     [Download ''a.bin'' ''application/x-test'' [1, 2, 3]] \<and>
   status (dc_onmessage (BinaryFrame [1, 2, 3]) receiving_a) = Completed"
  by (simp add: receiving_a_eq receive_defs ex_meta_def)

text \<open>
  A meta frame makes its \<^verbatim>\<open>FileMeta\<close> current and sets the counter to 0 without
  comparing the counter with the declared size: the comparison is made in
  \<^verbatim>\<open>storeChunk\<close> only, which runs on binary frames.
\<close>

lemma meta_frame_never_finalizes:
  assumes "is_meta m"
  shows "recvMetaRef (dc_onmessage (TextFrame (Some m)) st) = Some m"
    and "recvBytesRef (dc_onmessage (TextFrame (Some m)) st) = 0"
    and "downloads (dc_onmessage (TextFrame (Some m)) st) = downloads st"
    and "socketRef (dc_onmessage (TextFrame (Some m)) st) = socketRef st"
    and "status (dc_onmessage (TextFrame (Some m)) st) = Transferring"
  using assms by (simp_all add: dc_onmessage_def)

text \<open>
  Claim C3 on the code. The receiver gets the meta frame of an empty file. Its
  \<^verbatim>\<open>FileMeta\<close> is now current with the declared size 0 and the byte counter is 0:
  the counter has reached the declared size. Nothing is finalized: no file is handed
  over, the status is \<^verbatim>\<open>transferring\<close>, not \<^verbatim>\<open>completed\<close>, and no
  \<^verbatim>\<open>session-complete\<close> is emitted on the guest's socket. The sender sends no further
  frame for this file.
\<close>

theorem declared_size_reached_not_finalized:
  "recvMetaRef (dc_onmessage (TextFrame (Some (meta_of file_empty))) guest_ready) =
     Some (meta_of file_empty) \<and>
   m_size (meta_of file_empty) = Some 0 \<and>
   recvBytesRef (dc_onmessage (TextFrame (Some (meta_of file_empty))) guest_ready) = 0 \<and>
   downloads (dc_onmessage (TextFrame (Some (meta_of file_empty))) guest_ready) = [] \<and>
   status (dc_onmessage (TextFrame (Some (meta_of file_empty))) guest_ready) =
     Transferring \<and>
   map_option emitted
     (socketRef (dc_onmessage (TextFrame (Some (meta_of file_empty))) guest_ready)) =
     Some [Register ''0123456789abcdef''] \<and>
   sent_frames
     (outcome_state
        (sendFiles steady_channel (render_of (host_connected [file_empty]))
           (host_connected [file_empty]))) =
     [TextFrame (Some (meta_of file_empty))]"
  by (simp add: guest_ready_eq guest_waiting_eq initial_state_def dc_onmessage_def
      is_meta_def send_defs steady_channel_def file_empty_def)

lemma premeta_frames:
  assumes "recvMetaRef st = None"
  shows "recvChunksRef (receive_frames (map BinaryFrame bufs) st) = recvChunksRef st @ bufs \<and>
         recvBytesRef (receive_frames (map BinaryFrame bufs) st) =
           recvBytesRef st + sum_list (map length bufs) \<and>
         recvMetaRef (receive_frames (map BinaryFrame bufs) st) = None \<and>
         downloads (receive_frames (map BinaryFrame bufs) st) = downloads st \<and>
         status (receive_frames (map BinaryFrame bufs) st) = status st \<and>
         socketRef (receive_frames (map BinaryFrame bufs) st) = socketRef st"
  using assms
proof (induction bufs arbitrary: st)
  case Nil
  then show ?case by simp
next
  case (Cons b bufs)
  have nc: "\<not> recv_complete (recvMetaRef st) (recvBytesRef st + length b)"
    using Cons.prems by (simp add: recv_complete_def)
  have m1: "recvMetaRef (storeChunk b st) = None"
    using Cons.prems by (simp add: storeChunk_buffers)
  from Cons.IH [OF m1] show ?case
    by (simp add: dc_onmessage_def storeChunk_buffers storeChunk_below [OF nc])
qed

text \<open>
  Claim C10, as the code has it. Every binary frame is appended to the chunk buffer
  and counted, with or without a current \<^verbatim>\<open>FileMeta\<close>. While no \<^verbatim>\<open>FileMeta\<close> is
  set, any number of binary frames is buffered and counted and nothing is finalized.
  The next meta frame empties the buffer and resets the counter: chunks received
  before it do not become part of the file it announces.
\<close>

theorem premeta_chunks_buffered_then_cleared:
  "recvChunksRef (dc_onmessage (BinaryFrame buf) st) = recvChunksRef st @ [buf] \<and>
   recvBytesRef (dc_onmessage (BinaryFrame buf) st) = recvBytesRef st + length buf \<and>
   (recvMetaRef st = None \<longrightarrow>
      recvChunksRef (receive_frames (map BinaryFrame bufs) st) = recvChunksRef st @ bufs \<and>
      recvBytesRef (receive_frames (map BinaryFrame bufs) st) =
        recvBytesRef st + sum_list (map length bufs) \<and>
      recvMetaRef (receive_frames (map BinaryFrame bufs) st) = None \<and>
      downloads (receive_frames (map BinaryFrame bufs) st) = downloads st \<and>
      status (receive_frames (map BinaryFrame bufs) st) = status st \<and>
      socketRef (receive_frames (map BinaryFrame bufs) st) = socketRef st) \<and>
   (is_meta m \<longrightarrow>
      recvMetaRef (dc_onmessage (TextFrame (Some m)) st) = Some m \<and>
      recvChunksRef (dc_onmessage (TextFrame (Some m)) st) = [] \<and>
      recvBytesRef (dc_onmessage (TextFrame (Some m)) st) = 0)"
  using premeta_frames [of st bufs]
  by (simp add: dc_onmessage_def storeChunk_buffers)

theorem premeta_chunks_buffered_then_cleared_witness:
  "recvMetaRef initial_state = None \<and> is_meta ex_meta \<and>
   recvChunksRef (receive_frames (map BinaryFrame [[1, 2], [3]]) initial_state) =
     [[1, 2], [3]] \<and>
   recvBytesRef (receive_frames (map BinaryFrame [[1, 2], [3]]) initial_state) = 3 \<and>
   downloads (receive_frames (map BinaryFrame [[1, 2], [3]]) initial_state) = [] \<and>
   recvChunksRef (dc_onmessage (TextFrame (Some ex_meta)) initial_state) = []"
proof -
  have 1: "recvMetaRef initial_state = None" "recvChunksRef initial_state = []"
      "recvBytesRef initial_state = 0" "downloads initial_state = []"
    by (simp_all add: initial_state_def)
  have 2: "is_meta ex_meta"
    by (simp add: is_meta_def ex_meta_def)
  show ?thesis
    using premeta_chunks_buffered_then_cleared
            [of "[1, 2]" initial_state "[[1, 2], [3]]" ex_meta] 1 2
    by simp
qed

text \<open>
  Claim C10 as stated fails: two bytes received before any meta frame are buffered,
  the meta frame of a 3-byte file then empties the buffer, and the file that is
  finalized holds only the three bytes received after the meta frame.
\<close>

theorem premeta_chunks_carried_counterexample:
  "recvMetaRef initial_state = None \<and>
   recvChunksRef (receive_frames [BinaryFrame [1, 2]] initial_state) = [[1, 2]] \<and>
   recvChunksRef (receive_frames [BinaryFrame [1, 2], TextFrame (Some ex_meta)] initial_state)
     = [] \<and>
   recvBytesRef (receive_frames [BinaryFrame [1, 2], TextFrame (Some ex_meta)] initial_state)
     = 0 \<and>
   downloads
     (receive_frames [BinaryFrame [1, 2], TextFrame (Some ex_meta), BinaryFrame [7, 8, 9]]
        initial_state) =
     [Download ''a.bin'' ''application/x-test'' [7, 8, 9]]"
  by (simp add: receive_defs ex_meta_def)

subsection \<open>Sending: flow control\<close>

lemma sends_ok_append:
  "sends_ok plat thr p (xs @ ys) \<longleftrightarrow>
     sends_ok plat thr p xs \<and> sends_ok plat thr (last_amount p xs) ys"
  by (induction xs arbitrary: p) auto

lemma last_amount_append: "last_amount p (xs @ ys) = last_amount (last_amount p xs) ys"
  by (induction xs arbitrary: p) auto

lemma sends_ok_excess:
  assumes "sends_ok plat thr prev es" "prev \<le> thr + CHUNK_SIZE + metas"
  shows "excess_ok plat (thr + CHUNK_SIZE) metas es"
  using assms
proof (induction es arbitrary: prev metas)
  case Nil
  then show ?case by simp
next
  case (Cons e es)
  from Cons.prems(1) have ok: "entry_ok plat thr prev e"
    and rest: "sends_ok plat thr (snd e) es"
    by simp_all
  show ?case
  proof (cases "fst e")
    case (TextFrame t)
    from ok TextFrame have e: "snd e = prev + frame_bytes plat (fst e)"
      by (simp add: entry_ok_def)
    have le: "snd e \<le> thr + CHUNK_SIZE + (metas + frame_bytes plat (fst e))"
      using e Cons.prems(2) by simp
    from Cons.IH [OF rest le] le TextFrame show ?thesis by simp
  next
    case (BinaryFrame b)
    from ok BinaryFrame have e: "snd e \<le> thr + CHUNK_SIZE"
      by (simp add: entry_ok_def)
    have le: "snd e \<le> thr + CHUNK_SIZE + 0" using e by simp
    from Cons.IH [OF rest le] e BinaryFrame show ?thesis by simp
  qed
qed

lemma await_low_Some:
  assumes "await_low step dc = Some dc2"
  shows "bufferedAmount dc2 \<le> bufferedAmountLowThreshold dc"
    and "bufferedAmountLowThreshold dc2 = bufferedAmountLowThreshold dc"
    and "readyState dc2 = readyState dc" and "dc_sent dc2 = dc_sent dc"
    and "bufferedAmount dc2 \<le> bufferedAmount dc"
  using assms by (auto simp: await_low_def split: if_splits option.splits)

lemma dc_send_Some:
  assumes "dc_send plat fr dc = Some dc'"
  shows "bufferedAmount dc' = bufferedAmount dc + frame_bytes plat fr"
    and "bufferedAmountLowThreshold dc' = bufferedAmountLowThreshold dc"
    and "readyState dc' = readyState dc" and "readyState dc = RSOpen"
    and "dc_sent dc' = dc_sent dc @ [(fr, bufferedAmount dc + frame_bytes plat fr)]"
  using assms by (auto simp: dc_send_def Let_def split: if_splits)

lemma file_slice_length: "length (file_slice f a (a + CHUNK_SIZE)) \<le> CHUNK_SIZE"
  by (simp add: file_slice_def)

text \<open>
  The chunk loop, whatever its outcome: the channel keeps its threshold and ready
  state; every frame it sent is a chunk that left at most the threshold plus its own
  length in the buffer; the buffered amount at the end is at most the one right
  after the last send, and is that one when the loop returned.
\<close>

lemma send_chunks_log:
  "\<exists>new.
     dc_sent (fst (outcome_state (send_chunks plat r f offset dc st))) = dc_sent dc @ new \<and>
     bufferedAmountLowThreshold (fst (outcome_state (send_chunks plat r f offset dc st))) =
       bufferedAmountLowThreshold dc \<and>
     readyState (fst (outcome_state (send_chunks plat r f offset dc st))) = readyState dc \<and>
     (\<forall>p. sends_ok plat (bufferedAmountLowThreshold dc) p new) \<and>
     bufferedAmount (fst (outcome_state (send_chunks plat r f offset dc st))) \<le>
       last_amount (bufferedAmount dc) new \<and>
     ((\<exists>x. send_chunks plat r f offset dc st = Returned x) \<longrightarrow>
        bufferedAmount (fst (outcome_state (send_chunks plat r f offset dc st))) =
          last_amount (bufferedAmount dc) new)"
proof (induction plat r f offset dc st rule: send_chunks.induct)
  case (1 plat r f offset dc st)
  show ?case
  proof (cases "offset < f_size f")
    case False
    then have "send_chunks plat r f offset dc st = Returned (dc, st)"
      by (subst send_chunks.simps) simp
    then show ?thesis by (intro exI [of _ "[]"]) simp
  next
    case True
    define arrayBuffer where "arrayBuffer = file_slice f offset (offset + CHUNK_SIZE)"
    define step where "step = net plat (length (dc_sent dc))"
    define dc1 where "dc1 = dc\<lparr>bufferedAmount := bufferedAmount dc - drained step\<rparr>"
    show ?thesis
    proof (cases "await_low step dc1")
      case None
      then have "send_chunks plat r f offset dc st = Pending (dc1, st)"
        using True
        by (subst send_chunks.simps)
           (simp add: Let_def arrayBuffer_def[symmetric] step_def[symmetric] dc1_def[symmetric])
      then show ?thesis by (intro exI [of _ "[]"]) (simp add: dc1_def)
    next
      case (Some dc2)
      note low = await_low_Some [OF Some]
      show ?thesis
      proof (cases "dc_send plat (BinaryFrame arrayBuffer) dc2")
        case None
        then have "send_chunks plat r f offset dc st = Thrown ''InvalidStateError'' (dc2, st)"
          using True Some
          by (subst send_chunks.simps)
             (simp add: Let_def arrayBuffer_def[symmetric] step_def[symmetric] dc1_def[symmetric])
        moreover have "bufferedAmount dc2 \<le> bufferedAmount dc"
          using low(5) by (simp add: dc1_def)
        ultimately show ?thesis
          using low(2,3,4) by (intro exI [of _ "[]"]) (simp add: dc1_def)
      next
        case dc3: (Some dc3)
        note sent' = dc_send_Some [OF dc3]
        define offset' where "offset' = offset + length arrayBuffer"
        define st' where "st' = st\<lparr>sendProgress :=
            percent (of_nat (total_size (take (r_currentFileIndex r) (r_selectedFiles r)) + offset'))
              (of_nat (total_size (r_selectedFiles r)))\<rparr>"
        define e where "e = (BinaryFrame arrayBuffer, bufferedAmount dc2 + length arrayBuffer)"
        have unfold: "send_chunks plat r f offset dc st = send_chunks plat r f offset' dc3 st'"
          using True Some dc3
          by (subst send_chunks.simps)
             (simp add: Let_def arrayBuffer_def[symmetric] step_def[symmetric] dc1_def[symmetric]
                offset'_def st'_def)
        have thr: "bufferedAmountLowThreshold dc3 = bufferedAmountLowThreshold dc"
          and rs: "readyState dc3 = readyState dc"
          using sent'(2,3) low(2,3) by (simp_all add: dc1_def)
        have len: "length arrayBuffer \<le> CHUNK_SIZE"
          unfolding arrayBuffer_def by (rule file_slice_length)
        have sent: "dc_sent dc3 = dc_sent dc @ [e]"
          using sent'(5) low(4) by (simp add: dc1_def frame_bytes_def e_def)
        have amt3: "bufferedAmount dc3 = snd e"
          using sent'(1) by (simp add: frame_bytes_def e_def)
        have amt: "bufferedAmount dc2 \<le> bufferedAmountLowThreshold dc"
          using low(1) by (simp add: dc1_def)
        have ok: "entry_ok plat (bufferedAmountLowThreshold dc) p e" for p
          using len amt by (simp add: entry_ok_def e_def)
        obtain new where new:
          "dc_sent (fst (outcome_state (send_chunks plat r f offset' dc3 st'))) =
             dc_sent dc3 @ new"
          "bufferedAmountLowThreshold (fst (outcome_state (send_chunks plat r f offset' dc3 st'))) =
             bufferedAmountLowThreshold dc3"
          "readyState (fst (outcome_state (send_chunks plat r f offset' dc3 st'))) =
             readyState dc3"
          "\<forall>p. sends_ok plat (bufferedAmountLowThreshold dc3) p new"
          "bufferedAmount (fst (outcome_state (send_chunks plat r f offset' dc3 st'))) \<le>
             last_amount (bufferedAmount dc3) new"
          "(\<exists>x. send_chunks plat r f offset' dc3 st' = Returned x) \<longrightarrow>
             bufferedAmount (fst (outcome_state (send_chunks plat r f offset' dc3 st'))) =
               last_amount (bufferedAmount dc3) new"
          using "1.IH" [OF True arrayBuffer_def step_def dc1_def Some dc3 refl refl refl]
          unfolding offset'_def st'_def by blast
        show ?thesis
          unfolding unfold
          using new ok
          by (intro exI [of _ "e # new"]) (simp add: thr rs sent amt3)
      qed
    qed
  qed
qed

lemma on_socket_dcRef [simp]: "dcRef (on_socket g st) = dcRef st"
  by (simp add: on_socket_def split: option.splits)

lemma sent_since_refl: "sent_since plat dc dc []"
  by (simp add: sent_since_def)

text \<open>
  One file: on an open channel the meta frame is sent at once, whatever the buffered
  amount is, and adds its length to it; the chunks follow under flow control.
\<close>

lemma sendFile_log:
  assumes "dcRef st = Some dc"
  shows "\<exists>dc' new.
           dcRef (outcome_state (sendFile plat r f isLast st)) = Some dc' \<and>
           sent_since plat dc dc' new \<and>
           ((\<exists>x. sendFile plat r f isLast st = Returned x) \<longrightarrow>
              bufferedAmount dc' = last_amount (bufferedAmount dc) new) \<and>
           (readyState dc = RSOpen \<longrightarrow>
              (\<exists>rest. new = (TextFrame (Some (meta_of f)),
                             bufferedAmount dc + text_bytes plat (meta_of f)) # rest))"
proof (cases "readyState dc = RSOpen")
  case False
  then show ?thesis
    using assms
    by (intro exI [of _ dc] exI [of _ "[]"]) (simp add: sendFile_def sent_since_refl)
next
  case True
  define e where
    "e = (TextFrame (Some (meta_of f)), bufferedAmount dc + text_bytes plat (meta_of f))"
  define dc1 where "dc1 = dc\<lparr>bufferedAmount := snd e, dc_sent := dc_sent dc @ [e]\<rparr>"
  have dc1: "dc_send plat (TextFrame (Some (meta_of f))) dc = Some dc1"
    using True by (simp add: dc_send_def Let_def dc1_def e_def frame_bytes_def)
  define out where "out = send_chunks plat r f 0 dc1 st"
  obtain new where new:
    "dc_sent (fst (outcome_state out)) = dc_sent dc1 @ new"
    "bufferedAmountLowThreshold (fst (outcome_state out)) = bufferedAmountLowThreshold dc1"
    "readyState (fst (outcome_state out)) = readyState dc1"
    "\<forall>p. sends_ok plat (bufferedAmountLowThreshold dc1) p new"
    "bufferedAmount (fst (outcome_state out)) \<le> last_amount (bufferedAmount dc1) new"
    "(\<exists>x. out = Returned x) \<longrightarrow>
       bufferedAmount (fst (outcome_state out)) = last_amount (bufferedAmount dc1) new"
    using send_chunks_log [of plat r f 0 dc1 st] unfolding out_def by blast
  have ok: "entry_ok plat (bufferedAmountLowThreshold dc) (bufferedAmount dc) e"
    by (simp add: entry_ok_def e_def frame_bytes_def)
  have since: "sent_since plat dc (fst (outcome_state out)) (e # new)"
    using new(1,2,3,5) new(4) [rule_format, of "snd e"] ok
    by (simp add: sent_since_def dc1_def)
  have ret: "(\<exists>x. out = Returned x) \<longrightarrow>
       bufferedAmount (fst (outcome_state out)) = last_amount (bufferedAmount dc) (e # new)"
    using new(6) by (simp add: dc1_def)
  have run: "dcRef (outcome_state (sendFile plat r f isLast st)) =
               Some (fst (outcome_state out)) \<and>
             ((\<exists>x. sendFile plat r f isLast st = Returned x) \<longrightarrow> (\<exists>x. out = Returned x))"
    using assms True dc1
    by (cases out) (auto simp: sendFile_def Let_def out_def[symmetric])
  show ?thesis
    using run since ret True
    by (intro exI [of _ "fst (outcome_state out)"] exI [of _ "e # new"])
       (simp add: e_def)
qed

lemma sendFiles_loop_log:
  assumes "dcRef st = Some dc"
  shows "\<exists>dc' new. dcRef (outcome_state (sendFiles_loop plat r fs st)) = Some dc' \<and>
           sent_since plat dc dc' new"
  using assms
proof (induction fs arbitrary: st dc)
  case Nil
  then show ?case by (auto intro: sent_since_refl)
next
  case (Cons f fs)
  obtain dc1 new1 where dc1:
      "dcRef (outcome_state (sendFile plat r f (fs = []) st)) = Some dc1"
      "sent_since plat dc dc1 new1"
      "(\<exists>x. sendFile plat r f (fs = []) st = Returned x) \<longrightarrow>
         bufferedAmount dc1 = last_amount (bufferedAmount dc) new1"
    using sendFile_log [OF Cons.prems, of plat r f "fs = []"] by blast
  show ?case
  proof (cases "sendFile plat r f (fs = []) st")
    case (Returned st1)
    with dc1 have st1: "dcRef st1 = Some dc1"
      and eq: "bufferedAmount dc1 = last_amount (bufferedAmount dc) new1"
      by simp_all
    from Cons.IH [OF st1] obtain dc' new2 where dc':
      "dcRef (outcome_state (sendFiles_loop plat r fs st1)) = Some dc'"
      "sent_since plat dc1 dc' new2"
      by blast
    have "sent_since plat dc dc' (new1 @ new2)"
      using dc1(2) dc'(2) eq
      by (simp add: sent_since_def sends_ok_append last_amount_append)
    then show ?thesis using Returned dc'(1) by auto
  next
    case (Thrown msg st1)
    then show ?thesis using dc1 by auto
  next
    case (Pending st1)
    then show ?thesis using dc1 by auto
  qed
qed

lemma sendFiles_log:
  assumes "dcRef st = Some dc"
  shows "\<exists>dc' new. dcRef (outcome_state (sendFiles plat r st)) = Some dc' \<and>
           sent_since plat dc dc' new"
proof (cases "r_selectedFiles r = [] \<or> readyState dc \<noteq> RSOpen")
  case True
  then show ?thesis using assms by (auto simp: sendFiles_def intro: sent_since_refl)
next
  case False
  let ?st0 = "st\<lparr>status := Transferring, sendProgress := Some 0, currentFileIndex := 0\<rparr>"
  have "dcRef ?st0 = Some dc" using assms by simp
  from sendFiles_loop_log [OF this, of plat r "r_selectedFiles r"]
  show ?thesis using False assms by (simp add: sendFiles_def)
qed

lemma chunk_send_suspends:
  assumes "offset < f_size f"
    and "bufferedAmountLowThreshold dc < bufferedAmount dc - drained (net plat (length (dc_sent dc)))"
    and "low_event (net plat (length (dc_sent dc))) = None"
  shows "send_chunks plat r f offset dc st =
           Pending (dc\<lparr>bufferedAmount := bufferedAmount dc - drained (net plat (length (dc_sent dc)))\<rparr>, st)"
  using assms by (subst send_chunks.simps) (simp add: Let_def await_low_def)

subsection \<open>Sending and receiving whole files\<close>

lemma chunks_Nil [simp]: "chunks c [] = []"
  by (subst chunks.simps) simp

lemma chunks_step: "0 < c \<Longrightarrow> xs \<noteq> [] \<Longrightarrow> chunks c xs = take c xs # chunks c (drop c xs)"
  by (subst chunks.simps) simp

lemma concat_chunks: "0 < c \<Longrightarrow> concat (chunks c xs) = xs"
proof (induction c xs rule: chunks.induct)
  case (1 c xs)
  then show ?case by (cases "xs = []") (simp_all add: chunks_step)
qed

lemma ceil_step: "0 < c \<Longrightarrow> 0 < n \<Longrightarrow> (n + c - 1) div c = Suc ((n - 1) div c)" for c n :: nat
proof -
  assume a: "0 < c" "0 < n"
  then have e: "n + c - 1 = (n - 1) + c" by arith
  have "(n - 1 + c) div c = (n - 1) div c + 1"
    using a(1) by (intro div_add_self2) simp
  then show ?thesis by (simp only: e Suc_eq_plus1)
qed

lemma ceil_rest: "0 < c \<Longrightarrow> 0 < n \<Longrightarrow> (n - c + c - 1) div c = (n - 1) div c" for c n :: nat
proof (cases "c < n")
  case True
  then have "n - c + c - 1 = n - 1" by arith
  then show ?thesis by simp
next
  case False
  assume a: "0 < c" "0 < n"
  with False have "n - c + c - 1 < c" "n - 1 < c" by arith+
  then show ?thesis by simp
qed

lemma length_chunks: "0 < c \<Longrightarrow> length (chunks c xs) = (length xs + c - 1) div c"
proof (induction c xs rule: chunks.induct)
  case (1 c xs)
  show ?case
  proof (cases "xs = []")
    case True
    then show ?thesis using "1.prems" by simp
  next
    case False
    then have pos: "0 < length xs" by simp
    have "length (chunks c (drop c xs)) = (length (drop c xs) + c - 1) div c"
      using "1.IH" "1.prems" False by simp
    then have IH: "length (chunks c (drop c xs)) = (length xs - 1) div c"
      using ceil_rest [OF "1.prems" pos] by simp
    have step: "length (chunks c xs) = Suc (length (chunks c (drop c xs)))"
      using "1.prems" False by (simp add: chunks_step)
    show ?thesis unfolding step IH using ceil_step [OF "1.prems" pos] by simp
  qed
qed


lemma chunks_sizes:
  assumes "0 < c"
  shows "(\<forall>ch\<in>set (chunks c xs). 0 < length ch \<and> length ch \<le> c) \<and>
         (\<forall>i. Suc i < length (chunks c xs) \<longrightarrow> length (chunks c xs ! i) = c)"
  using assms
proof (induction c xs rule: chunks.induct)
  case (1 c xs)
  show ?case
  proof (cases "xs = []")
    case True
    then show ?thesis by simp
  next
    case False
    have IH: "(\<forall>ch\<in>set (chunks c (drop c xs)). 0 < length ch \<and> length ch \<le> c) \<and>
         (\<forall>i. Suc i < length (chunks c (drop c xs)) \<longrightarrow> length (chunks c (drop c xs) ! i) = c)"
      using "1.IH" "1.prems" False by simp
    have step: "chunks c xs = take c xs # chunks c (drop c xs)"
      using "1.prems" False by (rule chunks_step)
    have first: "0 < length (take c xs)" "length (take c xs) \<le> c"
      using "1.prems" False by simp_all
    have full: "length (take c xs) = c" if "chunks c (drop c xs) \<noteq> []"
    proof -
      from that have "drop c xs \<noteq> []" by auto
      then show ?thesis by simp
    qed
    have a: "\<forall>ch\<in>set (chunks c xs). 0 < length ch \<and> length ch \<le> c"
      unfolding step using first IH by simp
    have b: "length (chunks c xs ! i) = c" if i: "Suc i < length (chunks c xs)" for i
    proof (cases i)
      case 0
      with i have "chunks c (drop c xs) \<noteq> []" unfolding step by auto
      then show ?thesis unfolding step 0 using full by simp
    next
      case (Suc j)
      with i have "Suc j < length (chunks c (drop c xs))" unfolding step by simp
      then show ?thesis unfolding step Suc using IH by simp
    qed
    show ?thesis using a b by blast
  qed
qed

lemma CHUNK_SIZE_pos: "0 < CHUNK_SIZE"
  by (simp add: CHUNK_SIZE_def)

lemma await_low_never_stalls:
  assumes "never_stalls plat"
  shows "\<exists>dc2. await_low (net plat k) dc = Some dc2 \<and> readyState dc2 = readyState dc \<and>
           dc_sent dc2 = dc_sent dc"
proof -
  from assms have "low_event (net plat k) \<noteq> None"
    unfolding never_stalls_def by blast
  then obtain b where "low_event (net plat k) = Some b"
    by blast
  then show ?thesis by (simp add: await_low_def)
qed

lemma drop_slice:
  "drop (offset + length (take c (drop offset xs))) xs = drop c (drop offset xs)"
proof (cases "c \<le> length (drop offset xs)")
  case True
  then show ?thesis by (simp add: add.commute min_def)
next
  case False
  then show ?thesis by simp
qed

lemma send_chunks_frames:
  assumes "never_stalls plat" "readyState dc = RSOpen"
  shows "\<exists>dc'. send_chunks plat r f offset dc st =
             Returned (dc', st\<lparr>sendProgress :=
                              (if offset < f_size f then reported_progress r (f_size f)
                               else sendProgress st)\<rparr>) \<and>
           readyState dc' = RSOpen \<and>
           map fst (dc_sent dc') =
             map fst (dc_sent dc) @
             map BinaryFrame (chunks CHUNK_SIZE (drop offset (f_bytes f)))"
  using assms
proof (induction plat r f offset dc st rule: send_chunks.induct)
  case (1 plat r f offset dc st)
  note ns = "1.prems"(1) and op = "1.prems"(2)
  show ?case
  proof (cases "offset < f_size f")
    case False
    then have d: "drop offset (f_bytes f) = []" by (simp add: f_size_def)
    have e: "send_chunks plat r f offset dc st = Returned (dc, st)"
      using False by (subst send_chunks.simps) simp
    show ?thesis
      unfolding e using op d False
      by (intro exI [of _ dc]) simp
  next
    case True
    define arrayBuffer where "arrayBuffer = file_slice f offset (offset + CHUNK_SIZE)"
    define step where "step = net plat (length (dc_sent dc))"
    define dc1 where "dc1 = dc\<lparr>bufferedAmount := bufferedAmount dc - drained step\<rparr>"
    have ab: "arrayBuffer = take CHUNK_SIZE (drop offset (f_bytes f))"
      by (simp add: arrayBuffer_def file_slice_def)
    have ne: "drop offset (f_bytes f) \<noteq> []"
      using True by (simp add: f_size_def)
    obtain dc2 where dc2: "await_low step dc1 = Some dc2" "readyState dc2 = readyState dc1"
        "dc_sent dc2 = dc_sent dc1"
      using await_low_never_stalls [OF ns] unfolding step_def by blast
    have op2: "readyState dc2 = RSOpen" using dc2(2) op by (simp add: dc1_def)
    then obtain dc3 where dc3: "dc_send plat (BinaryFrame arrayBuffer) dc2 = Some dc3"
      by (auto simp: dc_send_def Let_def)
    note sent = dc_send_Some [OF dc3]
    define offset' where "offset' = offset + length arrayBuffer"
    define st' where "st' = st\<lparr>sendProgress :=
        percent (of_nat (total_size (take (r_currentFileIndex r) (r_selectedFiles r)) + offset'))
          (of_nat (total_size (r_selectedFiles r)))\<rparr>"
    have unfold: "send_chunks plat r f offset dc st = send_chunks plat r f offset' dc3 st'"
      using True dc2(1) dc3
      by (subst send_chunks.simps)
         (simp add: Let_def arrayBuffer_def[symmetric] step_def[symmetric] dc1_def[symmetric]
            offset'_def st'_def)
    have op3: "readyState dc3 = RSOpen" using sent(3) op2 by simp
    have "\<exists>dc'. send_chunks plat r f offset' dc3 st' =
             Returned (dc', st'\<lparr>sendProgress :=
                              (if offset' < f_size f then reported_progress r (f_size f)
                               else sendProgress st')\<rparr>) \<and>
           readyState dc' = RSOpen \<and>
           map fst (dc_sent dc') =
             map fst (dc_sent dc3) @
             map BinaryFrame (chunks CHUNK_SIZE (drop offset' (f_bytes f)))"
      unfolding offset'_def st'_def
      by (rule "1.IH" [OF True arrayBuffer_def step_def dc1_def dc2(1) dc3 refl refl refl ns op3])
    then obtain dc' where res:
        "send_chunks plat r f offset' dc3 st' =
           Returned (dc', st'\<lparr>sendProgress :=
                            (if offset' < f_size f then reported_progress r (f_size f)
                             else sendProgress st')\<rparr>)"
        "readyState dc' = RSOpen"
        "map fst (dc_sent dc') =
           map fst (dc_sent dc3) @ map BinaryFrame (chunks CHUNK_SIZE (drop offset' (f_bytes f)))"
      by blast
    have le: "offset' \<le> f_size f"
      using True unfolding offset'_def ab by (simp add: f_size_def)
    have st_eq: "st'\<lparr>sendProgress :=
                     (if offset' < f_size f then reported_progress r (f_size f)
                      else sendProgress st')\<rparr> =
                 st\<lparr>sendProgress := reported_progress r (f_size f)\<rparr>"
    proof (cases "offset' < f_size f")
      case True
      then show ?thesis by (simp add: st'_def)
    next
      case False
      with le have "offset' = f_size f" by simp
      then show ?thesis using False by (simp add: st'_def reported_progress_def)
    qed
    have sent3: "map fst (dc_sent dc3) = map fst (dc_sent dc) @ [BinaryFrame arrayBuffer]"
      using sent(5) dc2(3) by (simp add: dc1_def)
    have rest: "drop offset' (f_bytes f) = drop CHUNK_SIZE (drop offset (f_bytes f))"
      unfolding offset'_def ab by (rule drop_slice)
    have ch: "chunks CHUNK_SIZE (drop offset (f_bytes f)) =
                arrayBuffer # chunks CHUNK_SIZE (drop offset' (f_bytes f))"
      unfolding rest ab by (rule chunks_step [OF CHUNK_SIZE_pos ne])
    show ?thesis
      unfolding unfold using True res(1,2) res(3) st_eq by (auto simp: sent3 ch)
  qed
qed

lemma sendFile_frames:
  assumes "never_stalls plat" "dcRef st = Some dc" "readyState dc = RSOpen"
  shows "\<exists>st' dc'. sendFile plat r f isLast st = Returned st' \<and> dcRef st' = Some dc' \<and>
           readyState dc' = RSOpen \<and>
           map fst (dc_sent dc') = map fst (dc_sent dc) @ file_frames f \<and>
           (isLast \<longrightarrow> status st' = Completed) \<and>
           sendProgress st' =
             (if 0 < f_size f then reported_progress r (f_size f) else sendProgress st)"
proof -
  obtain dc1 where dc1: "dc_send plat (TextFrame (Some (meta_of f))) dc = Some dc1"
    using assms(3) by (auto simp: dc_send_def Let_def)
  note sent = dc_send_Some [OF dc1]
  have op1: "readyState dc1 = RSOpen" using sent(3) assms(3) by simp
  obtain dc' where res:
      "send_chunks plat r f 0 dc1 st =
         Returned (dc', st\<lparr>sendProgress :=
                          (if 0 < f_size f then reported_progress r (f_size f)
                           else sendProgress st)\<rparr>)"
      "readyState dc' = RSOpen"
      "map fst (dc_sent dc') =
         map fst (dc_sent dc1) @ map BinaryFrame (chunks CHUNK_SIZE (drop 0 (f_bytes f)))"
    using send_chunks_frames [OF assms(1) op1, of r f 0 st] by blast
  have frames: "map fst (dc_sent dc') = map fst (dc_sent dc) @ file_frames f"
    using res(3) sent(5) by (simp add: file_frames_def)
  show ?thesis
    using assms(2,3) dc1 res(1,2) frames
    by (simp add: sendFile_def Let_def on_socket_def split: option.splits)
qed

lemma sendFiles_loop_frames:
  assumes "never_stalls plat" "dcRef st = Some dc" "readyState dc = RSOpen"
  shows "\<exists>st' dc'. sendFiles_loop plat r fs st = Returned st' \<and> dcRef st' = Some dc' \<and>
           readyState dc' = RSOpen \<and>
           map fst (dc_sent dc') = map fst (dc_sent dc) @ concat (map file_frames fs) \<and>
           (fs \<noteq> [] \<longrightarrow> status st' = Completed)"
  using assms(2,3)
proof (induction fs arbitrary: st dc)
  case Nil
  then show ?case by simp
next
  case (Cons f fs)
  obtain st1 dc1 where one:
      "sendFile plat r f (fs = []) st = Returned st1" "dcRef st1 = Some dc1"
      "readyState dc1 = RSOpen"
      "map fst (dc_sent dc1) = map fst (dc_sent dc) @ file_frames f"
      "fs = [] \<longrightarrow> status st1 = Completed"
    using sendFile_frames [OF assms(1) Cons.prems, of r f "fs = []"] by blast
  obtain st' dc' where rest:
      "sendFiles_loop plat r fs st1 = Returned st'" "dcRef st' = Some dc'"
      "readyState dc' = RSOpen"
      "map fst (dc_sent dc') = map fst (dc_sent dc1) @ concat (map file_frames fs)"
      "fs \<noteq> [] \<longrightarrow> status st' = Completed"
    using Cons.IH [OF one(2,3)] by blast
  have "status st' = Completed"
  proof (cases "fs = []")
    case True
    then show ?thesis using one(5) rest(1) by simp
  next
    case False
    then show ?thesis using rest(5) by simp
  qed
  then show ?case using one(1,4) rest(1-4) by simp
qed

lemma sendFiles_frames:
  assumes "never_stalls plat" "dcRef st = Some dc" "readyState dc = RSOpen"
  shows "\<exists>st'. sendFiles plat r st = Returned st' \<and>
           sent_frames st' = sent_frames st @ concat (map file_frames (r_selectedFiles r)) \<and>
           (r_selectedFiles r \<noteq> [] \<longrightarrow> status st' = Completed)"
proof (cases "r_selectedFiles r = []")
  case True
  then show ?thesis using assms by (simp add: sendFiles_def sent_frames_def)
next
  case False
  let ?st0 = "st\<lparr>status := Transferring, sendProgress := Some 0, currentFileIndex := 0\<rparr>"
  have d0: "dcRef ?st0 = Some dc" using assms(2) by simp
  from sendFiles_loop_frames [OF assms(1) d0 assms(3), of r "r_selectedFiles r"]
  show ?thesis using False assms(2,3) by (auto simp: sendFiles_def sent_frames_def)
qed

lemma receive_frames_append:
  "receive_frames (xs @ ys) st = receive_frames ys (receive_frames xs st)"
  by (induction xs arbitrary: st) simp_all

lemma recv_complete_size:
  "m_size m = Some (int n) \<Longrightarrow> recv_complete (Some m) k \<longleftrightarrow> n \<le> k"
  by (simp add: recv_complete_def)

lemma receive_chunks:
  assumes "0 < c" "recvMetaRef st = Some m" "m_size m = Some (int n)"
    "recvBytesRef st + length rest = n" "rest \<noteq> []"
  shows "downloads (receive_frames (map BinaryFrame (chunks c rest)) st) =
           downloads st @ [Download (or_default (m_name m) ''download'')
                             (blob_type (or_default (m_mime m) ''application/octet-stream''))
                             (concat (recvChunksRef st) @ rest)]"
  using assms
proof (induction c rest arbitrary: st rule: chunks.induct)
  case (1 c rest)
  have step: "chunks c rest = take c rest # chunks c (drop c rest)"
    using "1.prems"(1,5) by (rule chunks_step)
  let ?st1 = "storeChunk (take c rest) st"
  have run: "receive_frames (map BinaryFrame (chunks c rest)) st =
               receive_frames (map BinaryFrame (chunks c (drop c rest))) ?st1"
    unfolding step by (simp add: dc_onmessage_def)
  show ?case
  proof (cases "drop c rest = []")
    case True
    then have all: "take c rest = rest" by simp
    have "recv_complete (Some m) (recvBytesRef st + length (take c rest))"
      using "1.prems"(3,4) all by (simp add: recv_complete_size)
    from storeChunk_reached(1) [OF "1.prems"(2) this]
    show ?thesis unfolding run using True all by simp
  next
    case False
    then have len: "length (take c rest) = c" "c < length rest" by simp_all
    have nc: "\<not> recv_complete (recvMetaRef st) (recvBytesRef st + length (take c rest))"
      using "1.prems"(2,3,4) len by (simp add: recv_complete_size)
    have m1: "recvMetaRef ?st1 = Some m" using "1.prems"(2) by (simp add: storeChunk_buffers)
    have b1: "recvBytesRef ?st1 + length (drop c rest) = n"
      using "1.prems"(4) len by (simp add: storeChunk_buffers)
    have "downloads (receive_frames (map BinaryFrame (chunks c (drop c rest))) ?st1) =
            downloads ?st1 @ [Download (or_default (m_name m) ''download'')
                             (blob_type (or_default (m_mime m) ''application/octet-stream''))
                             (concat (recvChunksRef ?st1) @ drop c rest)]"
      using "1.prems"(1,5) False
      by (intro "1.IH" [OF _ "1.prems"(1) m1 "1.prems"(3) b1]) simp_all
    then show ?thesis
      unfolding run by (simp add: storeChunk_buffers storeChunk_below(1) [OF nc])
  qed
qed

lemma is_meta_meta_of: "is_meta (meta_of f) \<longleftrightarrow> f_name f \<noteq> []"
  by (simp add: is_meta_def meta_of_def)

lemma receive_file:
  assumes "f_name f \<noteq> []"
  shows "downloads (receive_frames (file_frames f) st) =
           downloads st @ (if f_size f = 0 then [] else [download_of f])"
proof -
  let ?st1 = "dc_onmessage (TextFrame (Some (meta_of f))) st"
  have st1: "recvMetaRef ?st1 = Some (meta_of f)" "recvChunksRef ?st1 = []"
      "recvBytesRef ?st1 = 0" "downloads ?st1 = downloads st"
    using assms by (simp_all add: dc_onmessage_def is_meta_meta_of)
  have run: "receive_frames (file_frames f) st =
               receive_frames (map BinaryFrame (chunks CHUNK_SIZE (f_bytes f))) ?st1"
    by (simp add: file_frames_def)
  show ?thesis
  proof (cases "f_size f = 0")
    case True
    then show ?thesis unfolding run using st1(4) by (simp add: f_size_def)
  next
    case False
    then have ne: "f_bytes f \<noteq> []" by (simp add: f_size_def)
    have sz: "m_size (meta_of f) = Some (int (f_size f))" by (simp add: meta_of_def)
    have b: "recvBytesRef ?st1 + length (f_bytes f) = f_size f"
      using st1(3) by (simp add: f_size_def)
    from receive_chunks [OF CHUNK_SIZE_pos st1(1) sz b ne]
    show ?thesis
      unfolding run using False st1(2,4) assms
      by (simp add: download_of_def meta_of_def or_default_def)
  qed
qed

lemma receive_files:
  assumes "\<forall>f\<in>set fs. f_name f \<noteq> []"
  shows "downloads (receive_frames (concat (map file_frames fs)) st) =
           downloads st @ map download_of (filter (\<lambda>f. f_size f \<noteq> 0) fs)"
  using assms
proof (induction fs arbitrary: st)
  case Nil
  then show ?case by simp
next
  case (Cons f fs)
  then show ?case by (simp add: receive_frames_append receive_file)
qed

text \<open>
  What the sender and the receiver do with a list of files, when the channel is open
  and never stalls: the frames are, file by file, the meta frame and the chunks; a
  file has \<open>\<lceil>size / CHUNK_SIZE\<rceil>\<close> chunks, all of \<open>CHUNK_SIZE\<close> bytes but possibly
  the last; and a receiver that gets these frames hands over, in order and with
  their exact content, the files that are not empty. An empty file has no binary
  frame, so no frame ever finalizes it.
\<close>

lemma file_chunks_count:
  "length (chunks CHUNK_SIZE (f_bytes f)) = (f_size f + CHUNK_SIZE - 1) div CHUNK_SIZE"
  unfolding f_size_def by (rule length_chunks [OF CHUNK_SIZE_pos])

lemma file_chunks_content: "concat (chunks CHUNK_SIZE (f_bytes f)) = f_bytes f"
  by (rule concat_chunks [OF CHUNK_SIZE_pos])

lemma files_sent_and_received:
  assumes "never_stalls plat" "dcRef st = Some dc" "readyState dc = RSOpen"
    and "\<forall>f\<in>set (r_selectedFiles r). f_name f \<noteq> []"
  shows "\<exists>st'. sendFiles plat r st = Returned st' \<and>
           sent_frames st' = sent_frames st @ concat (map file_frames (r_selectedFiles r)) \<and>
           downloads (receive_frames (concat (map file_frames (r_selectedFiles r))) rcv) =
             downloads rcv @
             map download_of (filter (\<lambda>f. f_size f \<noteq> 0) (r_selectedFiles r))"
  using sendFiles_frames [OF assms(1-3), of r] receive_files [OF assms(4), of rcv]
  by blast

subsection \<open>Claims about sending\<close>

text \<open>
  Claim C4, as the code has it. Before a chunk is sent, a buffered amount above the
  threshold makes the sender wait; if \<^verbatim>\<open>bufferedamountlow\<close> never fires, the chunk
  is not sent and the send stays pending. Over a whole \<^verbatim>\<open>sendFiles\<close>, whatever its
  outcome, the threshold is unchanged and the sends it made are in order: every
  chunk is at most \<open>CHUNK_SIZE\<close> bytes long and left at most the threshold plus its
  own length in the buffer, and every meta frame left exactly the amount buffered
  right after the send before it plus its own length; the amount buffered at the end
  is at most the one right after the last send. So, when at most the threshold plus
  one chunk was buffered at the start, every send left at most the threshold plus
  one chunk plus the meta frames sent since the last chunk. On an open channel
  \<^verbatim>\<open>sendFile\<close> sends the meta frame at once, whatever the buffered amount is. The
  threshold set at channel binding is four chunks.
\<close>

theorem sender_backpressure:
  "(offset < f_size f \<and>
    bufferedAmountLowThreshold dc <
      bufferedAmount dc - drained (net plat (length (dc_sent dc))) \<and>
    low_event (net plat (length (dc_sent dc))) = None \<longrightarrow>
      send_chunks plat r f offset dc st =
        Pending (dc\<lparr>bufferedAmount :=
                      bufferedAmount dc - drained (net plat (length (dc_sent dc)))\<rparr>, st)) \<and>
   (dcRef st = Some dc \<longrightarrow>
      (\<exists>dc' new. dcRef (outcome_state (sendFiles plat r st)) = Some dc' \<and>
                 sent_since plat dc dc' new \<and>
                 (bufferedAmount dc \<le> bufferedAmountLowThreshold dc + CHUNK_SIZE \<longrightarrow>
                    excess_ok plat (bufferedAmountLowThreshold dc + CHUNK_SIZE) 0 new))) \<and>
   (dcRef st = Some dc \<and> readyState dc = RSOpen \<longrightarrow>
      (\<exists>dc' rest. dcRef (outcome_state (sendFile plat r f isLast st)) = Some dc' \<and>
                  dc_sent dc' =
                    dc_sent dc @
                    (TextFrame (Some (meta_of f)),
                     bufferedAmount dc + text_bytes plat (meta_of f)) # rest)) \<and>
   map_option bufferedAmountLowThreshold (dcRef (bindDataChannel ch st)) =
     Some (4 * CHUNK_SIZE)"
proof (intro conjI impI)
  assume "offset < f_size f \<and>
    bufferedAmountLowThreshold dc <
      bufferedAmount dc - drained (net plat (length (dc_sent dc))) \<and>
    low_event (net plat (length (dc_sent dc))) = None"
  then show "send_chunks plat r f offset dc st =
        Pending (dc\<lparr>bufferedAmount :=
                      bufferedAmount dc - drained (net plat (length (dc_sent dc)))\<rparr>, st)"
    by (intro chunk_send_suspends) simp_all
next
  assume "dcRef st = Some dc"
  from sendFiles_log [OF this, of plat r]
  obtain dc' new where new: "dcRef (outcome_state (sendFiles plat r st)) = Some dc'"
      "sent_since plat dc dc' new"
    by blast
  have "excess_ok plat (bufferedAmountLowThreshold dc + CHUNK_SIZE) 0 new"
    if "bufferedAmount dc \<le> bufferedAmountLowThreshold dc + CHUNK_SIZE"
    using new(2) that
    by (intro sends_ok_excess [of plat _ "bufferedAmount dc"]) (simp_all add: sent_since_def)
  with new show "\<exists>dc' new. dcRef (outcome_state (sendFiles plat r st)) = Some dc' \<and>
                 sent_since plat dc dc' new \<and>
                 (bufferedAmount dc \<le> bufferedAmountLowThreshold dc + CHUNK_SIZE \<longrightarrow>
                    excess_ok plat (bufferedAmountLowThreshold dc + CHUNK_SIZE) 0 new)"
    by blast
next
  assume a: "dcRef st = Some dc \<and> readyState dc = RSOpen"
  then have d: "dcRef st = Some dc" and o: "readyState dc = RSOpen" by simp_all
  from sendFile_log [OF d, of plat r f isLast] o
  obtain dc' new rest where
    "dcRef (outcome_state (sendFile plat r f isLast st)) = Some dc'"
    "sent_since plat dc dc' new"
    "new = (TextFrame (Some (meta_of f)), bufferedAmount dc + text_bytes plat (meta_of f)) # rest"
    by blast
  then show "\<exists>dc' rest. dcRef (outcome_state (sendFile plat r f isLast st)) = Some dc' \<and>
                  dc_sent dc' =
                    dc_sent dc @
                    (TextFrame (Some (meta_of f)),
                     bufferedAmount dc + text_bytes plat (meta_of f)) # rest"
    by (auto simp: sent_since_def)
next
  show "map_option bufferedAmountLowThreshold (dcRef (bindDataChannel ch st)) =
          Some (4 * CHUNK_SIZE)"
    by (simp add: bindDataChannel_def)
qed

theorem sender_backpressure_witness:
  "send_chunks stalled_channel (render_of (host_connected [file_a])) file_a 0
     (open_channel\<lparr>bufferedAmount := 5 * 65536\<rparr>) (host_connected [file_a]) =
     Pending (open_channel\<lparr>bufferedAmount := 5 * 65536\<rparr>, host_connected [file_a]) \<and>
   dcRef (host_connected [big_file, file_empty]) = Some open_channel \<and>
   readyState open_channel = RSOpen \<and>
   (\<exists>dc' new.
      dcRef (outcome_state
               (sendFiles slow_channel (render_of (host_connected [big_file, file_empty]))
                  (host_connected [big_file, file_empty]))) = Some dc' \<and>
      dc_sent dc' = new \<and> sends_ok slow_channel (4 * CHUNK_SIZE) 0 new \<and>
      excess_ok slow_channel (4 * CHUNK_SIZE + CHUNK_SIZE) 0 new) \<and>
   (\<exists>dc' rest.
      dcRef (outcome_state
               (sendFile slow_channel (render_of (host_connected [big_file, file_empty]))
                  big_file False (host_connected [big_file, file_empty]))) = Some dc' \<and>
      dc_sent dc' = (TextFrame (Some (meta_of big_file)), 80) # rest)"
proof -
  let ?dc = "open_channel\<lparr>bufferedAmount := 5 * 65536\<rparr>"
  let ?h = "host_connected [big_file, file_empty]"
  have a: "0 < f_size file_a \<and>
      bufferedAmountLowThreshold ?dc <
        bufferedAmount ?dc - drained (net stalled_channel (length (dc_sent ?dc))) \<and>
      low_event (net stalled_channel (length (dc_sent ?dc))) = None"
    by (simp add: file_a_def f_size_def open_channel_def stalled_channel_def CHUNK_SIZE_def)
  have d: "drained (net stalled_channel (length (dc_sent ?dc))) = 0"
    by (simp add: stalled_channel_def)
  have b: "dcRef ?h = Some open_channel"
    by (simp add: host_connected_def)
  have c: "readyState open_channel = RSOpen" "dc_sent open_channel = []"
      "bufferedAmount open_channel = 0" "bufferedAmountLowThreshold open_channel = 4 * CHUNK_SIZE"
    by (simp_all add: open_channel_def)
  have tb: "text_bytes slow_channel (meta_of big_file) = 80"
    by (simp add: slow_channel_def)
  have 1: "send_chunks stalled_channel (render_of (host_connected [file_a])) file_a 0 ?dc
             (host_connected [file_a]) = Pending (?dc, host_connected [file_a])"
    using sender_backpressure
            [of 0 file_a ?dc stalled_channel "render_of (host_connected [file_a])"
               "host_connected [file_a]"] a d
    by simp
  note t = sender_backpressure
             [of 0 big_file open_channel slow_channel "render_of ?h" ?h False open_channel]
  from t [THEN conjunct2, THEN conjunct1, rule_format, OF b]
  obtain dc' new where dc':
      "dcRef (outcome_state (sendFiles slow_channel (render_of ?h) ?h)) = Some dc'"
      "sent_since slow_channel open_channel dc' new"
      "bufferedAmount open_channel \<le> bufferedAmountLowThreshold open_channel + CHUNK_SIZE \<longrightarrow>
         excess_ok slow_channel (bufferedAmountLowThreshold open_channel + CHUNK_SIZE) 0 new"
    by blast
  from dc'(2,3) have "dc_sent dc' = new \<and> sends_ok slow_channel (4 * CHUNK_SIZE) 0 new \<and>
      excess_ok slow_channel (4 * CHUNK_SIZE + CHUNK_SIZE) 0 new"
    by (simp add: sent_since_def c)
  with dc'(1) have 2:
    "\<exists>dc' new. dcRef (outcome_state (sendFiles slow_channel (render_of ?h) ?h)) = Some dc' \<and>
        dc_sent dc' = new \<and> sends_ok slow_channel (4 * CHUNK_SIZE) 0 new \<and>
        excess_ok slow_channel (4 * CHUNK_SIZE + CHUNK_SIZE) 0 new"
    by blast
  from t [THEN conjunct2, THEN conjunct2, THEN conjunct1, rule_format, OF conjI [OF b c(1)]]
  have 3: "\<exists>dc' rest.
      dcRef (outcome_state (sendFile slow_channel (render_of ?h) big_file False ?h)) = Some dc' \<and>
      dc_sent dc' = (TextFrame (Some (meta_of big_file)), 80) # rest"
    by (simp add: c tb)
  show ?thesis using 1 2 3 b c(1) by simp
qed

text \<open>
  Claim C4 as stated fails for the bound. A file of five chunks is sent on a
  transport that drains only while the sender waits: the fifth chunk is sent with
  the buffer at the threshold and leaves threshold plus one chunk buffered; the meta
  frame of the next file follows without a check, and the buffered amount is then
  80 bytes more than the threshold plus one chunk.
\<close>

theorem sender_backpressure_counterexample:
  "(case sendFiles slow_channel (render_of (host_connected [big_file, file_empty]))
          (host_connected [big_file, file_empty]) of
      Returned st' \<Rightarrow>
        map_option bufferedAmount (dcRef st') = Some (4 * CHUNK_SIZE + CHUNK_SIZE + 80) \<and>
        map_option bufferedAmountLowThreshold (dcRef st') = Some (4 * CHUNK_SIZE) \<and>
        map_option (\<lambda>dc. length (dc_sent dc)) (dcRef st') = Some 7
    | Thrown msg st' \<Rightarrow> False
    | Pending st' \<Rightarrow> False)"
  by (simp add: send_defs slow_channel_def big_file_def file_empty_def)

text \<open>
  Claim C6 on the code. Two files of two bytes each are sent from a render whose
  \<^verbatim>\<open>currentFileIndex\<close> is 0. \<^verbatim>\<open>sendFile\<close> reads that captured index for every file,
  so for the second file the sum over earlier files is empty: after its only chunk,
  when four of four bytes are sent, the reported progress is 50 percent.
\<close>

theorem second_file_progress_restarts:
  "(case sendFiles steady_channel (render_of (host_connected [file_a, file_b]))
          (host_connected [file_a, file_b]) of
      Returned st' \<Rightarrow>
        sendProgress st' = Some 50 \<and> status st' = Completed \<and>
        sent_frames st' =
          [TextFrame (Some (meta_of file_a)), BinaryFrame [1, 2],
           TextFrame (Some (meta_of file_b)), BinaryFrame [3, 4]]
    | Thrown msg st' \<Rightarrow> False
    | Pending st' \<Rightarrow> False)"
  by (simp add: send_defs steady_channel_def file_a_def file_b_def)

text \<open>
  Claim C2 on the code. One empty file is sent: the sender emits its meta frame and
  no binary frame, and reports completion. The receiver starts the file on the meta
  frame, but only a binary frame can finalize it: no file is handed over and the
  receiver's status stays \<^verbatim>\<open>transferring\<close>.
\<close>

theorem empty_file_never_finalized:
  "(case sendFiles steady_channel (render_of (host_connected [file_empty]))
          (host_connected [file_empty]) of
      Returned st' \<Rightarrow>
        status st' = Completed \<and>
        sent_frames st' = [TextFrame (Some (meta_of file_empty))] \<and>
        downloads (receive_frames (sent_frames st') initial_state) = [] \<and>
        status (receive_frames (sent_frames st') initial_state) = Transferring
    | Thrown msg st' \<Rightarrow> False
    | Pending st' \<Rightarrow> False)"
  by (simp add: send_defs dc_onmessage_def is_meta_def steady_channel_def file_empty_def)

end
